theory Spec2Isabelle
  imports Main
begin

section \<open>Data model: the ticket and ticket_seat tables\<close>

text \<open>
  The booking core of \<^verbatim>\<open>src/code.py\<close> keeps its state in two SQLite tables,
  \<^verbatim>\<open>ticket\<close> and \<^verbatim>\<open>ticket_seat\<close> (\<^verbatim>\<open>init_database\<close>), and in the lock registry
  \<^verbatim>\<open>SeatMapService.locks\<close>. A table is the list of its rows in insertion order.
  The columns \<^verbatim>\<open>total\<close> and \<^verbatim>\<open>price\<close> have REAL affinity, but every value the
  code stores there is a sum or difference of the integers 100 and 150, which a
  double holds exactly for every list of seats a machine can hold; they are integers
  here. Foreign keys are declared but SQLite does not enforce them unless asked to (the
  code never asks), so no foreign-key check is modelled.
\<close>

record ticket =
  t_id :: int
  t_show_id :: int
  t_user :: string
  t_mobile :: string
  t_status :: string
  t_total :: int

record ticket_seat =
  ts_id :: int
  ts_ticket_id :: int
  ts_show_id :: int
  ts_row :: int
  ts_col :: int
  ts_price :: int

record database =
  ticket_tbl :: "ticket list"
  ticket_seat_tbl :: "ticket_seat list"

text \<open>The whole system: the database and the keys of the lock registry.\<close>

record system =
  db :: database
  locks :: "int set"

definition empty_database :: database where
  "empty_database = \<lparr>ticket_tbl = [], ticket_seat_tbl = []\<rparr>"

definition empty_system :: system where
  "empty_system = \<lparr>db = empty_database, locks = {}\<rparr>"

text \<open>
  Every failure of the source is a value. The first five are Python exceptions raised
  by the booking service itself: four \<^verbatim>\<open>ValueError\<close>s with their messages, and the
  failure of \<^verbatim>\<open>chr(65+row)\<close> while such a message is formatted (a \<^verbatim>\<open>ValueError\<close>
  or \<^verbatim>\<open>OverflowError\<close> of \<^verbatim>\<open>chr\<close>, with another message). The last two come from
  \<^verbatim>\<open>sqlite3\<close>: \<^verbatim>\<open>IntegrityError\<close>, raised by an insert that breaks
  \<^verbatim>\<open>UNIQUE(show_id, row, col)\<close>, and \<^verbatim>\<open>OverflowError\<close>, raised by \<^verbatim>\<open>execute\<close> when
  an integer parameter does not fit SQLite's signed 64-bit integers.
\<close>

datatype error =
    NoSeatsProvided
  | SeatAlreadyBooked int int
  | SeatBecameUnavailable int int
  | ChrArgError
  | TicketNotFoundOrNotBooked
  | IntegrityError
  | OverflowError

text \<open>
  The spec's error taxonomy, read on the source's exceptions: InvalidRequest is the
  "No seats provided for booking" error, SeatUnavailable the two "already booked" /
  "became unavailable" errors.
\<close>

definition is_InvalidRequest :: "error \<Rightarrow> bool" where
  "is_InvalidRequest e = (e = NoSeatsProvided)"

fun is_SeatUnavailable :: "error \<Rightarrow> bool" where
  "is_SeatUnavailable (SeatAlreadyBooked r c) = True"
| "is_SeatUnavailable (SeatBecameUnavailable r c) = True"
| "is_SeatUnavailable e = False"

section \<open>What SQLite does\<close>

text \<open>
  \<^verbatim>\<open>cursor.execute(sql, params)\<close> binds every parameter before the statement runs.
  A Python integer outside the signed 64-bit range cannot be bound: \<^verbatim>\<open>execute\<close>
  raises \<^verbatim>\<open>OverflowError\<close> and the statement does not run.
\<close>

definition sqlite_int :: "int \<Rightarrow> bool" where
  "sqlite_int n = (- (2 ^ 63) \<le> n \<and> n < 2 ^ 63)"

definition bindable :: "int list \<Rightarrow> bool" where
  "bindable params = list_all sqlite_int params"

text \<open>
  An \<^verbatim>\<open>INTEGER PRIMARY KEY\<close> column left out of an insert gets 1 in an empty table
  and the largest key in use plus one otherwise. (When the largest key is the largest
  64-bit integer SQLite looks for an unused key at random; that search is not modelled:
  the key computed here is then out of range, and the statements that bind it fail.)
\<close>

definition next_rowid :: "int list \<Rightarrow> int" where
  "next_rowid ids = (case ids of [] \<Rightarrow> 1 | x # xs \<Rightarrow> fold max xs x + 1)"

text \<open>\<^verbatim>\<open>FROM ticket_seat ts JOIN ticket t ON ts.ticket_id = t.id\<close>\<close>

definition seat_join_ticket :: "database \<Rightarrow> (ticket_seat \<times> ticket) list" where
  "seat_join_ticket d =
     concat (map (\<lambda>ts. map (\<lambda>t. (ts, t)) (filter (\<lambda>t. ts_ticket_id ts = t_id t) (ticket_tbl d)))
       (ticket_seat_tbl d))"

text \<open>
  \<^verbatim>\<open>BookingService.transaction\<close>: the body runs on the database; when it raises, the
  rollback restores the database the transaction started from and the exception is
  raised again; otherwise its writes are committed.
\<close>

definition transaction ::
  "(database \<Rightarrow> error + ('a \<times> database)) \<Rightarrow> database \<Rightarrow> (error + 'a) \<times> database" where
  "transaction body d =
     (case body d of
        Inl e \<Rightarrow> (Inl e, d)
      | Inr (r, d') \<Rightarrow> (Inr r, d'))"

section \<open>SeatMapService\<close>

definition get_price :: "int \<Rightarrow> int" where
  "get_price row = (if row \<in> set [0, 1, 2] then 100 else 150)"

definition get_seat_type :: "int \<Rightarrow> string" where
  "get_seat_type row = (if row \<in> set [0, 1, 2] then ''Standard'' else ''Premium'')"

text \<open>
  The rows \<^verbatim>\<open>build_seat_map\<close> fetches: (row, col) of every seat row of the showing whose
  ticket is BOOKED.
\<close>

definition booked_seats :: "database \<Rightarrow> int \<Rightarrow> (int \<times> int) list" where
  "booked_seats d show_id =
     map (\<lambda>(ts, t). (ts_row ts, ts_col ts))
       (filter (\<lambda>(ts, t). ts_show_id ts = show_id \<and> t_status t = ''BOOKED'') (seat_join_ticket d))"

text \<open>One round of the loop of \<^verbatim>\<open>build_seat_map\<close>: the guarded write of False.\<close>

fun mark_seat :: "int \<Rightarrow> int \<Rightarrow> int \<times> int \<Rightarrow> bool list list \<Rightarrow> bool list list" where
  "mark_seat rows cols (row, col) seat_map =
     (if 0 \<le> row \<and> row < rows \<and> 0 \<le> col \<and> col < cols
      then seat_map[nat row := (seat_map ! nat row)[nat col := False]]
      else seat_map)"

definition build_seat_map :: "database \<Rightarrow> int \<Rightarrow> int \<Rightarrow> int \<Rightarrow> bool list list" where
  "build_seat_map d show_id rows cols =
     fold (mark_seat rows cols) (booked_seats d show_id)
       (replicate (nat rows) (replicate (nat cols) True))"

section \<open>BookingService\<close>

definition is_seat_available :: "database \<Rightarrow> int \<Rightarrow> int \<Rightarrow> int \<Rightarrow> bool" where
  "is_seat_available d show_id row col =
     (filter (\<lambda>(ts, t). ts_show_id ts = show_id \<and> ts_row ts = row \<and> ts_col ts = col
                \<and> t_status t = ''BOOKED'') (seat_join_ticket d) = [])"

text \<open>
  \<open>is_seat_available\<close> is what the query answers. A call of the method first binds
  \<open>show_id\<close>, \<open>row\<close> and \<open>col\<close>, and raises when one of them cannot be bound.
\<close>

definition is_seat_available_call :: "database \<Rightarrow> int \<Rightarrow> int \<Rightarrow> int \<Rightarrow> error + bool" where
  "is_seat_available_call d show_id row col =
     (if bindable [show_id, row, col] then Inr (is_seat_available d show_id row col)
      else Inl OverflowError)"

text \<open>
  \<^verbatim>\<open>recheck_seats\<close> returns \<^verbatim>\<open>(False, (row, col))\<close> at the first seat that is taken and
  \<^verbatim>\<open>(True, None)\<close> when there is none: here \<open>Some (row, col)\<close> and \<open>None\<close>.
\<close>

fun recheck_seats :: "database \<Rightarrow> int \<Rightarrow> (int \<times> int) list \<Rightarrow> error + (int \<times> int) option" where
  "recheck_seats d show_id [] = Inr None"
| "recheck_seats d show_id ((row, col) # seats) =
     (case is_seat_available_call d show_id row col of
        Inl e \<Rightarrow> Inl e
      | Inr available \<Rightarrow>
          if \<not> available then Inr (Some (row, col)) else recheck_seats d show_id seats)"

text \<open>
  The two messages of \<^verbatim>\<open>book_seats\<close> format the seat as \<^verbatim>\<open>chr(65+row)\<close>, which
  raises instead when 65 + row is not a code point.
\<close>

definition chr_ok :: "int \<Rightarrow> bool" where
  "chr_ok n = (0 \<le> n \<and> n < 1114112)"

definition already_booked :: "int \<Rightarrow> int \<Rightarrow> error" where
  "already_booked row col = (if chr_ok (65 + row) then SeatAlreadyBooked row col else ChrArgError)"

definition became_unavailable :: "int \<Rightarrow> int \<Rightarrow> error" where
  "became_unavailable row col =
     (if chr_ok (65 + row) then SeatBecameUnavailable row col else ChrArgError)"

text \<open>
  The first loop of \<^verbatim>\<open>book_seats\<close>, run with no lock held: availability of each seat,
  the running total and the list \<^verbatim>\<open>seat_details\<close>. The price comes from the injected
  seat-map service, the parameter \<open>price_of\<close>; it is stored in a REAL column, which keeps
  an integer as it is up to a size of \<open>2 ^ 53\<close>.
\<close>

fun price_seats ::
  "(int \<Rightarrow> int) \<Rightarrow> database \<Rightarrow> int \<Rightarrow> (int \<times> int) list \<Rightarrow> int \<Rightarrow> (int \<times> int \<times> int) list
     \<Rightarrow> error + (int \<times> (int \<times> int \<times> int) list)" where
  "price_seats price_of d show_id [] total_price seat_details = Inr (total_price, seat_details)"
| "price_seats price_of d show_id ((row, col) # seats) total_price seat_details =
     (case is_seat_available_call d show_id row col of
        Inl e \<Rightarrow> Inl e
      | Inr available \<Rightarrow>
          if \<not> available then Inl (already_booked row col)
          else price_seats price_of d show_id seats (total_price + price_of row)
                 (seat_details @ [(row, col, price_of row)]))"

text \<open>\<^verbatim>\<open>INSERT INTO ticket (...) VALUES (?, ?, ?, 'BOOKED', ?)\<close> and \<^verbatim>\<open>cursor.lastrowid\<close>\<close>

definition insert_ticket ::
  "database \<Rightarrow> int \<Rightarrow> string \<Rightarrow> string \<Rightarrow> int \<Rightarrow> error + (int \<times> database)" where
  "insert_ticket d show_id user_name user_mobile total_price =
     (if \<not> bindable [show_id, total_price] then Inl OverflowError
      else
        (let ticket_id = next_rowid (map t_id (ticket_tbl d))
         in Inr (ticket_id,
              d\<lparr>ticket_tbl := ticket_tbl d @
                   [\<lparr>t_id = ticket_id, t_show_id = show_id, t_user = user_name,
                     t_mobile = user_mobile, t_status = ''BOOKED'', t_total = total_price\<rparr>]\<rparr>)))"

text \<open>
  \<^verbatim>\<open>INSERT INTO ticket_seat (...)\<close>: once its five parameters are bound, refused with
  IntegrityError when a row with the same (show_id, row, col) is in the table, whatever
  ticket owns it.
\<close>

definition insert_ticket_seat ::
  "database \<Rightarrow> int \<Rightarrow> int \<Rightarrow> int \<Rightarrow> int \<Rightarrow> int \<Rightarrow> error + database" where
  "insert_ticket_seat d ticket_id show_id row col price =
     (if \<not> bindable [ticket_id, show_id, row, col, price] then Inl OverflowError
      else if list_ex (\<lambda>ts. ts_show_id ts = show_id \<and> ts_row ts = row \<and> ts_col ts = col)
           (ticket_seat_tbl d)
      then Inl IntegrityError
      else Inr (d\<lparr>ticket_seat_tbl := ticket_seat_tbl d @
                    [\<lparr>ts_id = next_rowid (map ts_id (ticket_seat_tbl d)),
                      ts_ticket_id = ticket_id, ts_show_id = show_id,
                      ts_row = row, ts_col = col, ts_price = price\<rparr>]\<rparr>))"

fun insert_seats ::
  "database \<Rightarrow> int \<Rightarrow> int \<Rightarrow> (int \<times> int \<times> int) list \<Rightarrow> error + database" where
  "insert_seats d ticket_id show_id [] = Inr d"
| "insert_seats d ticket_id show_id ((row, col, price) # seat_details) =
     (case insert_ticket_seat d ticket_id show_id row col price of
        Inl e \<Rightarrow> Inl e
      | Inr d' \<Rightarrow> insert_seats d' ticket_id show_id seat_details)"

text \<open>The body of the transaction of \<^verbatim>\<open>book_seats\<close>.\<close>

definition book_seats_tx ::
  "int \<Rightarrow> string \<Rightarrow> string \<Rightarrow> (int \<times> int) list \<Rightarrow> int \<Rightarrow> (int \<times> int \<times> int) list \<Rightarrow> database
     \<Rightarrow> error + ((int \<times> int \<times> (int \<times> int \<times> int) list) \<times> database)" where
  "book_seats_tx show_id user_name user_mobile seats total_price seat_details d =
     (case recheck_seats d show_id seats of
        Inl e \<Rightarrow> Inl e
      | Inr (Some (row, col)) \<Rightarrow> Inl (became_unavailable row col)
      | Inr None \<Rightarrow>
          (case insert_ticket d show_id user_name user_mobile total_price of
             Inl e \<Rightarrow> Inl e
           | Inr (ticket_id, d1) \<Rightarrow>
               (case insert_seats d1 ticket_id show_id seat_details of
                  Inl e \<Rightarrow> Inl e
                | Inr d2 \<Rightarrow> Inr ((ticket_id, total_price, seat_details), d2))))"

text \<open>
  \<^verbatim>\<open>book_seats\<close>. \<^verbatim>\<open>get_lock\<close> adds the showing to the lock registry; one caller
  takes and releases the lock around the transaction, which leaves no other trace.
  The parameters \<open>rows\<close> and \<open>cols\<close> are received and, as in the source, never read.
\<close>

definition book_seats_with ::
  "(int \<Rightarrow> int) \<Rightarrow> system \<Rightarrow> int \<Rightarrow> string \<Rightarrow> string \<Rightarrow> (int \<times> int) list \<Rightarrow> int \<Rightarrow> int
     \<Rightarrow> (error + (int \<times> int \<times> (int \<times> int \<times> int) list)) \<times> system" where
  "book_seats_with price_of st show_id user_name user_mobile seats rows cols =
     (if seats = [] then (Inl NoSeatsProvided, st)
      else
        (case price_seats price_of (db st) show_id seats 0 [] of
           Inl e \<Rightarrow> (Inl e, st)
         | Inr (total_price, seat_details) \<Rightarrow>
             (let st1 = st\<lparr>locks := insert show_id (locks st)\<rparr>
              in case transaction
                        (book_seats_tx show_id user_name user_mobile seats total_price seat_details)
                        (db st1) of
                   (res, d') \<Rightarrow> (res, st1\<lparr>db := d'\<rparr>))))"

definition book_seats ::
  "system \<Rightarrow> int \<Rightarrow> string \<Rightarrow> string \<Rightarrow> (int \<times> int) list \<Rightarrow> int \<Rightarrow> int
     \<Rightarrow> (error + (int \<times> int \<times> (int \<times> int \<times> int) list)) \<times> system" where
  "book_seats = book_seats_with get_price"

text \<open>
  The loops of \<^verbatim>\<open>cancel_seats\<close>: the refund, then the deletes. Each round runs one
  statement with the parameters (ticket_id, row, col).
\<close>

fun refund_of :: "database \<Rightarrow> int \<Rightarrow> (int \<times> int) list \<Rightarrow> int \<Rightarrow> error + int" where
  "refund_of d ticket_id [] refund_amount = Inr refund_amount"
| "refund_of d ticket_id ((row, col) # seats) refund_amount =
     (if \<not> bindable [ticket_id, row, col] then Inl OverflowError
      else
        (case find (\<lambda>ts. ts_ticket_id ts = ticket_id \<and> ts_row ts = row \<and> ts_col ts = col)
                (ticket_seat_tbl d) of
           Some ts \<Rightarrow> refund_of d ticket_id seats (refund_amount + ts_price ts)
         | None \<Rightarrow> refund_of d ticket_id seats refund_amount))"

fun delete_seats :: "database \<Rightarrow> int \<Rightarrow> (int \<times> int) list \<Rightarrow> error + database" where
  "delete_seats d ticket_id [] = Inr d"
| "delete_seats d ticket_id ((row, col) # seats) =
     (if \<not> bindable [ticket_id, row, col] then Inl OverflowError
      else
        delete_seats
          (d\<lparr>ticket_seat_tbl :=
               filter (\<lambda>ts. \<not> (ts_ticket_id ts = ticket_id \<and> ts_row ts = row \<and> ts_col ts = col))
                 (ticket_seat_tbl d)\<rparr>)
          ticket_id seats)"

text \<open>\<^verbatim>\<open>FROM ticket_seat WHERE ticket_id = ?\<close>\<close>

definition owned_seats :: "database \<Rightarrow> int \<Rightarrow> ticket_seat list" where
  "owned_seats d ticket_id = filter (\<lambda>ts. ts_ticket_id ts = ticket_id) (ticket_seat_tbl d)"

text \<open>\<^verbatim>\<open>UPDATE ticket SET ... WHERE id = ?\<close>\<close>

definition update_ticket :: "int \<Rightarrow> (ticket \<Rightarrow> ticket) \<Rightarrow> database \<Rightarrow> database" where
  "update_ticket ticket_id f d =
     d\<lparr>ticket_tbl := map (\<lambda>t. if t_id t = ticket_id then f t else t) (ticket_tbl d)\<rparr>"

text \<open>
  The body of the transaction of \<^verbatim>\<open>cancel_seats\<close>. The amounts read back from the REAL
  columns are floats, which \<^verbatim>\<open>execute\<close> binds whatever their size; the ticket id is
  bound by the first statement, so the later ones that bind it alone cannot fail.
\<close>

definition cancel_seats_tx ::
  "int \<Rightarrow> (int \<times> int) list \<Rightarrow> database \<Rightarrow> error + (int \<times> database)" where
  "cancel_seats_tx ticket_id seats_to_cancel d =
     (if \<not> bindable [ticket_id] then Inl OverflowError
      else
        (case find (\<lambda>t. t_id t = ticket_id \<and> t_status t = ''BOOKED'') (ticket_tbl d) of
           None \<Rightarrow> Inl TicketNotFoundOrNotBooked
         | Some t \<Rightarrow>
             (let total_amount = t_total t
              in case refund_of d ticket_id seats_to_cancel 0 of
                   Inl e \<Rightarrow> Inl e
                 | Inr refund_amount \<Rightarrow>
                     (case delete_seats d ticket_id seats_to_cancel of
                        Inl e \<Rightarrow> Inl e
                      | Inr d1 \<Rightarrow>
                          (let remaining_seats = length (owned_seats d1 ticket_id)
                           in if remaining_seats = 0
                              then Inr (refund_amount,
                                     update_ticket ticket_id
                                       (\<lambda>t. t\<lparr>t_status := ''CANCELLED'', t_total := 0\<rparr>) d1)
                              else Inr (refund_amount,
                                     update_ticket ticket_id
                                       (\<lambda>t. t\<lparr>t_total := total_amount - refund_amount\<rparr>) d1))))))"

definition cancel_seats :: "system \<Rightarrow> int \<Rightarrow> (int \<times> int) list \<Rightarrow> (error + int) \<times> system" where
  "cancel_seats st ticket_id seats_to_cancel =
     (case transaction (cancel_seats_tx ticket_id seats_to_cancel) (db st) of
        (res, d') \<Rightarrow> (res, st\<lparr>db := d'\<rparr>))"

section \<open>Histories of bookings and cancellations\<close>

datatype op =
    Book int string string "(int \<times> int) list" int int
  | Cancel int "(int \<times> int) list"

fun apply_op :: "system \<Rightarrow> op \<Rightarrow> system" where
  "apply_op st (Book show_id user_name user_mobile seats rows cols) =
     snd (book_seats st show_id user_name user_mobile seats rows cols)"
| "apply_op st (Cancel ticket_id seats_to_cancel) = snd (cancel_seats st ticket_id seats_to_cancel)"

definition run :: "op list \<Rightarrow> system" where
  "run ops = foldl apply_op empty_system ops"

section \<open>Notions the properties are stated with\<close>

text \<open>The list \<^verbatim>\<open>seat_details\<close> a booking of \<open>seats\<close> returns under a price function.\<close>

definition priced :: "(int \<Rightarrow> int) \<Rightarrow> (int \<times> int) list \<Rightarrow> (int \<times> int \<times> int) list" where
  "priced price_of seats = map (\<lambda>(row, col). (row, col, price_of row)) seats"

text \<open>A seat row without its own key: (ticket_id, show_id, row, col, price).\<close>

definition seat_fields :: "ticket_seat \<Rightarrow> int \<times> int \<times> int \<times> int \<times> int" where
  "seat_fields ts = (ts_ticket_id ts, ts_show_id ts, ts_row ts, ts_col ts, ts_price ts)"

text \<open>
  The error the lock-free loop of \<^verbatim>\<open>book_seats\<close> stops with, if it does: that of the
  first requested seat whose parameters cannot be bound or which is taken.
\<close>

fun precheck_error :: "database \<Rightarrow> int \<Rightarrow> (int \<times> int) list \<Rightarrow> error option" where
  "precheck_error d show_id [] = None"
| "precheck_error d show_id ((row, col) # seats) =
     (if \<not> bindable [show_id, row, col] then Some OverflowError
      else if \<not> is_seat_available d show_id row col then Some (already_booked row col)
      else precheck_error d show_id seats)"

text \<open>Every requested pair can be bound together with a key \<open>k\<close>.\<close>

definition seats_bindable :: "int \<Rightarrow> (int \<times> int) list \<Rightarrow> bool" where
  "seats_bindable k seats = list_all (\<lambda>(row, col). bindable [k, row, col]) seats"

text \<open>The columns of \<^verbatim>\<open>UNIQUE(show_id, row, col)\<close>.\<close>

definition seat_key :: "ticket_seat \<Rightarrow> int \<times> int \<times> int" where
  "seat_key ts = (ts_show_id ts, ts_row ts, ts_col ts)"

text \<open>
  The price snapshotted for a pair in a reservation: the price of the seat row
  \<^verbatim>\<open>SELECT price FROM ticket_seat WHERE ticket_id = ? AND row = ? AND col = ?\<close> finds,
  and nothing when the pair is not a seat of the reservation.
\<close>

definition snapshot_price :: "database \<Rightarrow> int \<Rightarrow> int \<times> int \<Rightarrow> int" where
  "snapshot_price d ticket_id rc =
     (case find (\<lambda>ts. ts_ticket_id ts = ticket_id \<and> (ts_row ts, ts_col ts) = rc) (ticket_seat_tbl d) of
        Some ts \<Rightarrow> ts_price ts
      | None \<Rightarrow> 0)"

text \<open>Every seat row names a ticket that is in the ticket table.\<close>

definition referential :: "database \<Rightarrow> bool" where
  "referential d = list_all (\<lambda>ts. ts_ticket_id ts \<in> set (map t_id (ticket_tbl d))) (ticket_seat_tbl d)"

text \<open>
  What the schema and the two operations keep true of the tables: ticket ids are distinct
  (the primary key), so are the (show_id, row, col) of the seat rows (the UNIQUE
  constraint), and every seat row names a ticket that is there with status BOOKED.
\<close>

definition db_inv :: "database \<Rightarrow> bool" where
  "db_inv d =
     (distinct (map t_id (ticket_tbl d))
      \<and> distinct (map seat_key (ticket_seat_tbl d))
      \<and> list_all (\<lambda>ts. list_ex (\<lambda>t. t_id t = ts_ticket_id ts \<and> t_status t = ''BOOKED'') (ticket_tbl d))
            (ticket_seat_tbl d))"

text \<open>A pair lies in a grid of the given numbers of rows and columns.\<close>

definition in_grid :: "int \<times> int \<Rightarrow> int \<times> int \<Rightarrow> bool" where
  "in_grid dims rc = (0 \<le> fst rc \<and> fst rc < fst dims \<and> 0 \<le> snd rc \<and> snd rc < snd dims)"

text \<open>
  A caller that respects the grids \<open>dims\<close> of the showings, as the interactive front end
  does: a booking passes the showing's dimensions and only seats within them.
\<close>

fun op_in_bounds :: "(int \<Rightarrow> int \<times> int) \<Rightarrow> op \<Rightarrow> bool" where
  "op_in_bounds dims (Book show_id user_name user_mobile seats rows cols) =
     ((rows, cols) = dims show_id \<and> list_all (in_grid (rows, cols)) seats)"
| "op_in_bounds dims (Cancel ticket_id seats_to_cancel) = True"

text \<open>Every seat row lies within the grid of its showing.\<close>

definition rows_in_grid :: "(int \<Rightarrow> int \<times> int) \<Rightarrow> database \<Rightarrow> bool" where
  "rows_in_grid dims d
     = list_all (\<lambda>ts. in_grid (dims (ts_show_id ts)) (ts_row ts, ts_col ts)) (ticket_seat_tbl d)"

text \<open>
  The ticket is in the table, and each of its seat rows at the pair \<open>rc\<close> has price \<open>p\<close>.
\<close>

definition priced_at :: "int \<Rightarrow> int \<times> int \<Rightarrow> int \<Rightarrow> database \<Rightarrow> bool" where
  "priced_at ticket_id rc p d =
     (ticket_id \<in> set (map t_id (ticket_tbl d))
      \<and> list_all (\<lambda>ts. ts_ticket_id ts = ticket_id \<and> (ts_row ts, ts_col ts) = rc \<longrightarrow> ts_price ts = p)
            (ticket_seat_tbl d))"

text \<open>An integer a REAL column stores as it is.\<close>

definition real_exact :: "int \<Rightarrow> bool" where
  "real_exact n = (\<bar>n\<bar> \<le> 2 ^ 53)"

section \<open>The pricing policy\<close>

text \<open>
  Claim C7. The pricing policy is a total function of the row index alone: rows 0, 1 and
  2 cost 100 and are Standard, every other row costs 150 and is Premium, 150 is more
  than 100, and price and tier split the rows the same way.
\<close>
theorem pricing_policy:
  "(get_price row = (if row = 0 \<or> row = 1 \<or> row = 2 then 100 else 150))
   \<and> (get_seat_type row = (if row = 0 \<or> row = 1 \<or> row = 2 then ''Standard'' else ''Premium''))
   \<and> (100::int) < 150
   \<and> (get_price row = 100 \<longleftrightarrow> get_seat_type row = ''Standard'')
   \<and> (get_price row = 150 \<longleftrightarrow> get_seat_type row = ''Premium'')"
  by (simp add: get_price_def get_seat_type_def)

theorem pricing_policy_witness:
  "get_price 2 = 100 \<and> get_seat_type 2 = ''Standard'' \<and> get_price 3 = 150
   \<and> get_seat_type 3 = ''Premium'' \<and> get_price (- 1) = 150"
  using pricing_policy [of 2] pricing_policy [of 3] pricing_policy [of "- 1"] by simp

section \<open>The point query and the seat map\<close>

lemma mark_seat_length: "length (mark_seat rows cols rc m) = length m"
  by (cases rc) simp

lemma fold_mark_length: "length (fold (mark_seat rows cols) xs m) = length m"
  by (induction xs arbitrary: m) (simp_all add: mark_seat_length)

lemma nth_nested_update:
  "m[i := (m ! i)[j := v]] ! i' ! j' = (if i' = i \<and> j' = j \<and> i < length m \<and> j < length (m ! i) then v else m ! i' ! j')"
proof (cases "i' = i")
  case False
  then show ?thesis by simp
next
  case True
  show ?thesis
  proof (cases "i < length m")
    case False
    then show ?thesis using True by (simp add: list_update_beyond)
  next
    case lt: True
    show ?thesis
    proof (cases "j' = j")
      case False
      then show ?thesis using True lt by simp
    next
      case jj: True
      show ?thesis
      proof (cases "j < length (m ! i)")
        case True
        then show ?thesis using \<open>i' = i\<close> lt jj by simp
      next
        case False
        then show ?thesis using \<open>i' = i\<close> lt jj by (simp add: list_update_beyond)
      qed
    qed
  qed
qed

lemma length_nested_update:
  "length (m[i := (m ! i)[j := v]] ! i') = length (m ! i')"
proof (cases "i' = i \<and> i < length m")
  case True
  then show ?thesis by simp
next
  case False
  then show ?thesis by (cases "i' = i") (simp_all add: list_update_beyond)
qed

lemma mark_seat_row_length:
  "length (mark_seat rows cols rc m ! i) = length (m ! i)"
  by (cases rc) (simp add: length_nested_update)

lemma mark_seat_cell:
  assumes "0 \<le> row" "row < rows" "0 \<le> col" "col < cols"
    and "nat row < length m" "nat col < length (m ! nat row)"
  shows "mark_seat rows cols rc m ! nat row ! nat col = (m ! nat row ! nat col \<and> rc \<noteq> (row, col))"
  using assms by (cases rc) (auto simp: nth_nested_update nat_eq_iff)

lemma fold_mark_row_length:
  "length (fold (mark_seat rows cols) xs m ! i) = length (m ! i)"
  by (induction xs arbitrary: m) (simp_all add: mark_seat_row_length)

lemma fold_mark_cell:
  assumes "0 \<le> row" "row < rows" "0 \<le> col" "col < cols"
    and "nat row < length m" "nat col < length (m ! nat row)"
  shows "fold (mark_seat rows cols) xs m ! nat row ! nat col
           = (m ! nat row ! nat col \<and> (row, col) \<notin> set xs)"
  using assms(5,6)
proof (induction xs arbitrary: m)
  case Nil
  then show ?case by simp
next
  case (Cons rc xs)
  have "fold (mark_seat rows cols) (rc # xs) m ! nat row ! nat col
          = fold (mark_seat rows cols) xs (mark_seat rows cols rc m) ! nat row ! nat col"
    by simp
  also have "\<dots> = (mark_seat rows cols rc m ! nat row ! nat col \<and> (row, col) \<notin> set xs)"
    using Cons.prems by (intro Cons.IH) (simp_all add: mark_seat_length mark_seat_row_length)
  also have "\<dots> = (m ! nat row ! nat col \<and> (row, col) \<notin> set (rc # xs))"
    using mark_seat_cell [OF assms(1-4) Cons.prems, of rc] by auto
  finally show ?case .
qed

lemma is_seat_available_booked_seats:
  "is_seat_available d show_id row col \<longleftrightarrow> (row, col) \<notin> set (booked_seats d show_id)"
  by (auto simp: is_seat_available_def booked_seats_def filter_empty_conv image_iff)

text \<open>
  Claim C8. For every in-bounds cell of the grid, \<^verbatim>\<open>is_seat_available\<close> answers
  true exactly when \<^verbatim>\<open>build_seat_map\<close>, on the same database, has true (available)
  at that cell.
\<close>

theorem point_query_agrees_with_grid:
  assumes "0 \<le> row" "row < rows" "0 \<le> col" "col < cols"
  shows "is_seat_available d show_id row col
           = build_seat_map d show_id rows cols ! nat row ! nat col"
proof -
  let ?m = "replicate (nat rows) (replicate (nat cols) True)"
  have r: "nat row < length ?m" using assms by simp
  have c: "nat col < length (?m ! nat row)" using assms by simp
  have "build_seat_map d show_id rows cols ! nat row ! nat col
          = (?m ! nat row ! nat col \<and> (row, col) \<notin> set (booked_seats d show_id))"
    unfolding build_seat_map_def by (rule fold_mark_cell [OF assms r c])
  also have "\<dots> = ((row, col) \<notin> set (booked_seats d show_id))"
    using assms by simp
  finally show ?thesis by (simp add: is_seat_available_booked_seats)
qed

theorem point_query_agrees_with_grid_witness:
  "is_seat_available (db (run [Book 1 ''u'' ''m'' [(0, 0), (1, 2)] 7 7])) 1 1 2
     = build_seat_map (db (run [Book 1 ''u'' ''m'' [(0, 0), (1, 2)] 7 7])) 1 7 7 ! nat 1 ! nat 2
   \<and> \<not> is_seat_available (db (run [Book 1 ''u'' ''m'' [(0, 0), (1, 2)] 7 7])) 1 1 2
   \<and> is_seat_available (db (run [Book 1 ''u'' ''m'' [(0, 0), (1, 2)] 7 7])) 1 6 6
     = build_seat_map (db (run [Book 1 ''u'' ''m'' [(0, 0), (1, 2)] 7 7])) 1 7 7 ! nat 6 ! nat 6
   \<and> is_seat_available (db (run [Book 1 ''u'' ''m'' [(0, 0), (1, 2)] 7 7])) 1 6 6"
proof -
  let ?d = "db (run [Book 1 ''u'' ''m'' [(0, 0), (1, 2)] 7 7])"
  have a: "is_seat_available ?d 1 1 2 = build_seat_map ?d 1 7 7 ! nat 1 ! nat 2"
    by (rule point_query_agrees_with_grid) simp_all
  have b: "is_seat_available ?d 1 6 6 = build_seat_map ?d 1 7 7 ! nat 6 ! nat 6"
    by (rule point_query_agrees_with_grid) simp_all
  have c: "\<not> is_seat_available ?d 1 1 2" by code_simp
  have e: "is_seat_available ?d 1 6 6" by code_simp
  from a b c e show ?thesis by blast
qed

section \<open>Booking\<close>

lemma price_seats_eq:
  "price_seats price_of d show_id seats tot details =
     (case precheck_error d show_id seats of
        Some e \<Rightarrow> Inl e
      | None \<Rightarrow> Inr (tot + sum_list (map (\<lambda>(row, col). price_of row) seats),
                    details @ priced price_of seats))"
proof (induction seats arbitrary: tot details)
  case Nil
  then show ?case by (simp add: priced_def)
next
  case (Cons rc seats)
  obtain row col where rc: "rc = (row, col)" by (cases rc)
  show ?case
  proof (cases "bindable [show_id, row, col]")
    case False
    then show ?thesis by (simp add: rc is_seat_available_call_def)
  next
    case b: True
    show ?thesis
    proof (cases "is_seat_available d show_id row col")
      case False
      then show ?thesis using b by (simp add: rc is_seat_available_call_def)
    next
      case True
      then show ?thesis using b
        by (simp add: rc is_seat_available_call_def Cons.IH priced_def split: option.splits)
    qed
  qed
qed

lemma recheck_seats_None:
  "precheck_error d show_id seats = None \<Longrightarrow> recheck_seats d show_id seats = Inr None"
proof (induction seats)
  case Nil
  then show ?case by simp
next
  case (Cons rc seats)
  obtain row col where rc: "rc = (row, col)" by (cases rc)
  from Cons.prems rc have b: "bindable [show_id, row, col]"
    and a: "is_seat_available d show_id row col"
    and r: "precheck_error d show_id seats = None"
    by (auto split: if_splits)
  from Cons.IH [OF r] show ?case by (simp add: rc is_seat_available_call_def a b)
qed

lemma precheck_error_None_bindable:
  "precheck_error d show_id seats = None \<Longrightarrow> seats_bindable show_id seats"
proof (induction seats)
  case Nil
  then show ?case by (simp add: seats_bindable_def)
next
  case (Cons rc seats)
  obtain row col where rc: "rc = (row, col)" by (cases rc)
  from Cons.prems rc have b: "bindable [show_id, row, col]"
    and r: "precheck_error d show_id seats = None"
    by (auto split: if_splits)
  from Cons.IH [OF r] b show ?case by (simp add: rc seats_bindable_def)
qed

lemma fold_max_ge: "(x::int) \<le> fold max xs x"
  by (induction xs arbitrary: x) (auto intro: order_trans [OF max.cobounded2])

lemma fold_max_upper: "y \<in> set xs \<Longrightarrow> (y::int) \<le> fold max xs x"
proof (induction xs arbitrary: x)
  case Nil
  then show ?case by simp
next
  case (Cons a xs)
  show ?case
  proof (cases "y = a")
    case True
    have "a \<le> max a x" by simp
    also have "\<dots> \<le> fold max xs (max a x)" by (rule fold_max_ge)
    finally show ?thesis using True by simp
  next
    case False
    with Cons.prems have "y \<in> set xs" by simp
    from Cons.IH [OF this] show ?thesis by simp
  qed
qed

lemma next_rowid_fresh: "next_rowid ids \<notin> set ids"
proof
  assume a: "next_rowid ids \<in> set ids"
  then obtain x xs where ids: "ids = x # xs" by (cases ids) auto
  have "next_rowid ids \<le> fold max xs x"
  proof (cases "next_rowid ids = x")
    case True
    then show ?thesis using fold_max_ge [of x xs] by simp
  next
    case False
    with a ids have "next_rowid ids \<in> set xs" by simp
    then show ?thesis by (rule fold_max_upper)
  qed
  then show False by (simp add: next_rowid_def ids)
qed

lemma insert_ticket_seat_Inr:
  "insert_ticket_seat d ticket_id show_id row col price = Inr d' \<Longrightarrow>
     ticket_tbl d' = ticket_tbl d
     \<and> (\<exists>r. ticket_seat_tbl d' = ticket_seat_tbl d @ [r]
            \<and> seat_fields r = (ticket_id, show_id, row, col, price))
     \<and> (show_id, row, col) \<notin> set (map seat_key (ticket_seat_tbl d))"
  by (auto simp: insert_ticket_seat_def seat_fields_def seat_key_def list_ex_iff split: if_splits)

lemma insert_seats_Inr:
  "insert_seats d ticket_id show_id details = Inr d' \<Longrightarrow>
     ticket_tbl d' = ticket_tbl d
     \<and> (\<exists>new_rows. ticket_seat_tbl d' = ticket_seat_tbl d @ new_rows
          \<and> map seat_fields new_rows
              = map (\<lambda>(row, col, price). (ticket_id, show_id, row, col, price)) details)"
proof (induction details arbitrary: d)
  case Nil
  then show ?case by simp
next
  case (Cons x details)
  obtain row col price where x: "x = (row, col, price)" by (cases x)
  from Cons.prems x obtain d1 where
    d1: "insert_ticket_seat d ticket_id show_id row col price = Inr d1"
    and rest: "insert_seats d1 ticket_id show_id details = Inr d'"
    by (auto split: sum.splits)
  from insert_ticket_seat_Inr [OF d1] obtain r where
    r: "ticket_seat_tbl d1 = ticket_seat_tbl d @ [r]"
       "seat_fields r = (ticket_id, show_id, row, col, price)"
       "ticket_tbl d1 = ticket_tbl d"
    by auto
  from Cons.IH [OF rest] obtain new_rows where
    n: "ticket_tbl d' = ticket_tbl d1" "ticket_seat_tbl d' = ticket_seat_tbl d1 @ new_rows"
       "map seat_fields new_rows
          = map (\<lambda>(row, col, price). (ticket_id, show_id, row, col, price)) details"
    by blast
  have a: "ticket_seat_tbl d' = ticket_seat_tbl d @ (r # new_rows)" using n r by simp
  have b: "map seat_fields (r # new_rows)
      = map (\<lambda>(row, col, price). (ticket_id, show_id, row, col, price)) (x # details)"
    using n r x by simp
  have c: "ticket_tbl d' = ticket_tbl d" using n r by simp
  from a b have "\<exists>new_rows. ticket_seat_tbl d' = ticket_seat_tbl d @ new_rows
          \<and> map seat_fields new_rows
              = map (\<lambda>(row, col, price). (ticket_id, show_id, row, col, price)) (x # details)"
    by (intro exI [of _ "r # new_rows"] conjI)
  with c show ?case by (rule conjI)
qed

text \<open>The three ways through \<^verbatim>\<open>book_seats\<close>.\<close>

lemma book_seats_with_empty:
  "book_seats_with price_of st show_id user_name user_mobile [] rows cols
     = (Inl NoSeatsProvided, st)"
  by (simp add: book_seats_with_def)

lemma book_seats_with_precheck:
  assumes "precheck_error (db st) show_id seats = Some e"
  shows "book_seats_with price_of st show_id user_name user_mobile seats rows cols = (Inl e, st)"
proof -
  from assms have "seats \<noteq> []" by auto
  then show ?thesis by (simp add: book_seats_with_def price_seats_eq assms)
qed

lemma book_seats_with_locked:
  assumes "seats \<noteq> []" "precheck_error (db st) show_id seats = None"
  shows "book_seats_with price_of st show_id user_name user_mobile seats rows cols =
     (case insert_ticket (db st) show_id user_name user_mobile
             (sum_list (map (\<lambda>(row, col). price_of row) seats)) of
        Inl e \<Rightarrow> (Inl e, st\<lparr>locks := insert show_id (locks st)\<rparr>)
      | Inr (ticket_id, d1) \<Rightarrow>
          (case insert_seats d1 ticket_id show_id (priced price_of seats) of
             Inl e \<Rightarrow> (Inl e, st\<lparr>locks := insert show_id (locks st)\<rparr>)
           | Inr d2 \<Rightarrow>
               (Inr (ticket_id, sum_list (map (\<lambda>(row, col). price_of row) seats),
                     priced price_of seats),
                st\<lparr>locks := insert show_id (locks st), db := d2\<rparr>)))"
  using assms
  by (simp add: book_seats_with_def price_seats_eq Let_def transaction_def book_seats_tx_def
        recheck_seats_None split: sum.splits prod.splits)

lemma book_seats_with_Inl:
  assumes "book_seats_with price_of st show_id user_name user_mobile seats rows cols = (Inl e, st')"
  shows "db st' = db st"
proof (cases "seats = []")
  case True
  with assms show ?thesis by (simp add: book_seats_with_empty)
next
  case ne: False
  show ?thesis
  proof (cases "precheck_error (db st) show_id seats")
    case (Some e')
    with assms show ?thesis by (simp add: book_seats_with_precheck)
  next
    case None
    from assms show ?thesis
      unfolding book_seats_with_locked [OF ne None]
      by (auto split: sum.splits prod.splits)
  qed
qed

lemma book_seats_with_Inr:
  assumes "book_seats_with price_of st show_id user_name user_mobile seats rows cols
             = (Inr (ticket_id, tot, confirmed), st')"
  shows "seats \<noteq> [] \<and> precheck_error (db st) show_id seats = None
     \<and> ticket_id = next_rowid (map t_id (ticket_tbl (db st)))
     \<and> tot = sum_list (map (\<lambda>(row, col). price_of row) seats)
     \<and> confirmed = priced price_of seats
     \<and> locks st' = insert show_id (locks st)
     \<and> ticket_tbl (db st') = ticket_tbl (db st) @
          [\<lparr>t_id = ticket_id, t_show_id = show_id, t_user = user_name, t_mobile = user_mobile,
            t_status = ''BOOKED'', t_total = tot\<rparr>]
     \<and> (\<exists>new_rows. ticket_seat_tbl (db st') = ticket_seat_tbl (db st) @ new_rows
          \<and> map seat_fields new_rows
              = map (\<lambda>(row, col). (ticket_id, show_id, row, col, price_of row)) seats)"
proof -
  let ?tp = "sum_list (map (\<lambda>(row, col). price_of row) seats)"
  from assms have ne: "seats \<noteq> []" by (auto simp: book_seats_with_empty)
  have pe: "precheck_error (db st) show_id seats = None"
  proof (cases "precheck_error (db st) show_id seats")
    case (Some e)
    with assms show ?thesis by (simp add: book_seats_with_precheck)
  qed simp
  note u = assms [unfolded book_seats_with_locked [OF ne pe]]
  from u obtain tid1 d1 where
    it: "insert_ticket (db st) show_id user_name user_mobile ?tp = Inr (tid1, d1)"
    by (cases "insert_ticket (db st) show_id user_name user_mobile ?tp") auto
  from u it obtain d2 where ins0: "insert_seats d1 tid1 show_id (priced price_of seats) = Inr d2"
    by (cases "insert_seats d1 tid1 show_id (priced price_of seats)") auto
  from u it ins0 have eqs: "tid1 = ticket_id" "tot = ?tp" "confirmed = priced price_of seats"
    "st' = st\<lparr>locks := insert show_id (locks st), db := d2\<rparr>" by simp_all
  from it have tid: "tid1 = next_rowid (map t_id (ticket_tbl (db st)))"
    and d1: "ticket_tbl d1 = ticket_tbl (db st) @
          [\<lparr>t_id = tid1, t_show_id = show_id, t_user = user_name, t_mobile = user_mobile,
            t_status = ''BOOKED'', t_total = ?tp\<rparr>]"
       "ticket_seat_tbl d1 = ticket_seat_tbl (db st)"
    by (auto simp: insert_ticket_def Let_def split: if_splits)
  from insert_seats_Inr [OF ins0] obtain new_rows where
    n: "ticket_tbl d2 = ticket_tbl d1" "ticket_seat_tbl d2 = ticket_seat_tbl d1 @ new_rows"
       "map seat_fields new_rows
          = map (\<lambda>(row, col, price). (tid1, show_id, row, col, price)) (priced price_of seats)"
    by blast
  have "map (\<lambda>(row, col, price). (tid1, show_id, row, col, price)) (priced price_of seats)
      = map (\<lambda>(row, col). (tid1, show_id, row, col, price_of row)) seats"
    by (simp add: priced_def case_prod_unfold)
  with n d1 eqs tid ne pe show ?thesis by simp
qed

lemma book_seats_with_result_cases:
  obtains (ok) ticket_id tot confirmed st' where
      "book_seats_with price_of st show_id user_name user_mobile seats rows cols
         = (Inr (ticket_id, tot, confirmed), st')"
  | (err) e st' where
      "book_seats_with price_of st show_id user_name user_mobile seats rows cols = (Inl e, st')"
proof (cases "book_seats_with price_of st show_id user_name user_mobile seats rows cols")
  case (Pair r st')
  then show ?thesis
  proof (cases r)
    case (Inl e)
    with Pair show ?thesis by (intro err) simp
  next
    case (Inr x)
    obtain a b c where "x = (a, b, c)" by (cases x)
    with Pair Inr show ?thesis by (intro ok) simp
  qed
qed

lemma owned_new_rows:
  assumes "referential d" "ticket_id \<notin> set (map t_id (ticket_tbl d))"
    and "map seat_fields new_rows = map (\<lambda>(row, col). (ticket_id, show_id, row, col, p row)) seats"
  shows "filter (\<lambda>ts. ts_ticket_id ts = ticket_id) (ticket_seat_tbl d @ new_rows) = new_rows"
proof -
  have old: "filter (\<lambda>ts. ts_ticket_id ts = ticket_id) (ticket_seat_tbl d) = []"
    using assms(1,2) by (auto simp: referential_def list_all_iff filter_empty_conv)
  have "\<forall>ts \<in> set new_rows. fst (seat_fields ts) = ticket_id"
  proof
    fix ts assume "ts \<in> set new_rows"
    then have "seat_fields ts \<in> set (map seat_fields new_rows)" by simp
    then show "fst (seat_fields ts) = ticket_id" unfolding assms(3) by auto
  qed
  then have "filter (\<lambda>ts. ts_ticket_id ts = ticket_id) new_rows = new_rows"
    by (auto simp: seat_fields_def filter_id_conv)
  with old show ?thesis by simp
qed

text \<open>
  Claim C1. Every call of \<^verbatim>\<open>book_seats\<close> either returns (ticket id, total, confirmed
  seats) and has added exactly one ticket, with a fresh id, status BOOKED and the
  returned total, and exactly one seat row per requested seat, in the order requested
  and owned by that ticket, the total being the sum of the seats' tier prices; or it
  raises and the database is the one it started from. When every earlier seat row names
  an existing ticket, the seat rows the new ticket owns are exactly the added ones.
\<close>

theorem book_seats_all_or_nothing:
  "(case book_seats st show_id user_name user_mobile seats rows cols of
      (Inr (ticket_id, tot, confirmed), st') \<Rightarrow>
         tot = sum_list (map (\<lambda>(row, col). get_price row) seats)
         \<and> confirmed = priced get_price seats
         \<and> ticket_id \<notin> set (map t_id (ticket_tbl (db st)))
         \<and> ticket_tbl (db st') = ticket_tbl (db st) @
              [\<lparr>t_id = ticket_id, t_show_id = show_id, t_user = user_name,
                t_mobile = user_mobile, t_status = ''BOOKED'', t_total = tot\<rparr>]
         \<and> take (length (ticket_seat_tbl (db st))) (ticket_seat_tbl (db st'))
             = ticket_seat_tbl (db st)
         \<and> map seat_fields (drop (length (ticket_seat_tbl (db st))) (ticket_seat_tbl (db st')))
             = map (\<lambda>(row, col). (ticket_id, show_id, row, col, get_price row)) seats
         \<and> (referential (db st) \<longrightarrow>
              map seat_fields (owned_seats (db st') ticket_id)
                = map (\<lambda>(row, col). (ticket_id, show_id, row, col, get_price row)) seats)
    | (Inl e, st') \<Rightarrow> db st' = db st)"
proof (cases rule: book_seats_with_result_cases
         [of get_price st show_id user_name user_mobile seats rows cols])
  case (err e st')
  then show ?thesis by (simp add: book_seats_def book_seats_with_Inl [OF err])
next
  case (ok ticket_id tot confirmed st')
  from book_seats_with_Inr [OF ok] obtain new_rows where
    f: "ticket_id = next_rowid (map t_id (ticket_tbl (db st)))"
       "tot = sum_list (map (\<lambda>(row, col). get_price row) seats)"
       "confirmed = priced get_price seats"
       "ticket_tbl (db st') = ticket_tbl (db st) @
          [\<lparr>t_id = ticket_id, t_show_id = show_id, t_user = user_name, t_mobile = user_mobile,
            t_status = ''BOOKED'', t_total = tot\<rparr>]"
       "ticket_seat_tbl (db st') = ticket_seat_tbl (db st) @ new_rows"
       "map seat_fields new_rows
          = map (\<lambda>(row, col). (ticket_id, show_id, row, col, get_price row)) seats"
    by blast
  have fresh: "ticket_id \<notin> set (map t_id (ticket_tbl (db st)))"
    unfolding f(1) by (rule next_rowid_fresh)
  have own: "referential (db st) \<Longrightarrow> owned_seats (db st') ticket_id = new_rows"
    unfolding owned_seats_def f(5) by (rule owned_new_rows [OF _ fresh f(6)])
  show ?thesis
    using f(2-6) fresh own by (simp add: book_seats_def ok)
qed

theorem book_seats_all_or_nothing_witness:
  "fst (book_seats empty_system 1 ''u'' ''m'' [(0, 0), (3, 3)] 7 7)
     = Inr (1, 250, [(0, 0, 100), (3, 3, 150)])
   \<and> map t_status (ticket_tbl (db (snd (book_seats empty_system 1 ''u'' ''m'' [(0, 0), (3, 3)] 7 7))))
       = [''BOOKED'']
   \<and> map seat_fields (owned_seats (db (snd (book_seats empty_system 1 ''u'' ''m'' [(0, 0), (3, 3)] 7 7))) 1)
       = [(1, 1, 0, 0, 100), (1, 1, 3, 3, 150)]
   \<and> fst (book_seats (run [Book 1 ''u'' ''m'' [(0, 0)] 7 7]) 1 ''v'' ''n''
              [(1, 1), (9223372036854775808, 0)] 7 7) = Inl OverflowError
   \<and> db (snd (book_seats (run [Book 1 ''u'' ''m'' [(0, 0)] 7 7]) 1 ''v'' ''n''
              [(1, 1), (9223372036854775808, 0)] 7 7)) = db (run [Book 1 ''u'' ''m'' [(0, 0)] 7 7])"
proof -
  let ?r = "book_seats empty_system 1 ''u'' ''m'' [(0, 0), (3, 3)] 7 7"
  let ?S = "run [Book 1 ''u'' ''m'' [(0, 0)] 7 7]"
  let ?q = "book_seats ?S 1 ''v'' ''n'' [(1, 1), (9223372036854775808, 0)] 7 7"
  have ref: "referential (db empty_system)" by code_simp
  have e: "fst ?r = Inr (1, 250, [(0, 0, 100), (3, 3, 150)])" by code_simp
  obtain st' where r: "?r = (Inr (1, 250, [(0, 0, 100), (3, 3, 150)]), st')"
    using e by (cases ?r) simp
  have e2: "fst ?q = Inl OverflowError" by code_simp
  obtain st2 where q: "?q = (Inl OverflowError, st2)"
    using e2 by (cases ?q) simp
  from book_seats_all_or_nothing [where st = empty_system and show_id = 1 and user_name = "''u''"
      and user_mobile = "''m''" and seats = "[(0, 0), (3, 3)]" and rows = 7 and cols = 7] ref
  have 1: "map t_status (ticket_tbl (db st')) = [''BOOKED'']
     \<and> map seat_fields (owned_seats (db st') 1) = [(1, 1, 0, 0, 100), (1, 1, 3, 3, 150)]"
    unfolding r by (simp add: empty_system_def empty_database_def get_price_def)
  from book_seats_all_or_nothing [where st = ?S and show_id = 1 and user_name = "''v''"
      and user_mobile = "''n''" and seats = "[(1, 1), (9223372036854775808, 0)]"
      and rows = 7 and cols = 7]
  have 2: "db st2 = db ?S" unfolding q by simp
  from 1 2 e e2 show ?thesis by (simp add: r q)
qed

lemma sqlite_int_get_price: "sqlite_int (get_price row)"
  by (simp add: sqlite_int_def get_price_def)

lemma bindable_Cons: "bindable (x # xs) \<longleftrightarrow> sqlite_int x \<and> bindable xs"
  by (simp add: bindable_def)

lemma bindable_Nil: "bindable []"
  by (simp add: bindable_def)

lemma insert_ticket_seat_clash:
  "bindable [ticket_id, show_id, row, col, price]
     \<Longrightarrow> (show_id, row, col) \<in> set (map seat_key (ticket_seat_tbl d))
     \<Longrightarrow> insert_ticket_seat d ticket_id show_id row col price = Inl IntegrityError"
  by (auto simp: insert_ticket_seat_def seat_key_def list_ex_iff)

lemma insert_ticket_seat_keys:
  "insert_ticket_seat d ticket_id show_id row col price = Inr d'
     \<Longrightarrow> map seat_key (ticket_seat_tbl d') = map seat_key (ticket_seat_tbl d) @ [(show_id, row, col)]
       \<and> (show_id, row, col) \<notin> set (map seat_key (ticket_seat_tbl d))"
  by (auto simp: insert_ticket_seat_def seat_key_def list_ex_iff split: if_splits)

lemma insert_ticket_seat_Inl:
  "insert_ticket_seat d ticket_id show_id row col price = Inl e
     \<Longrightarrow> bindable [ticket_id, show_id, row, col, price] \<Longrightarrow> e = IntegrityError"
  by (auto simp: insert_ticket_seat_def split: if_splits)

lemma insert_seats_clash:
  assumes "list_all (\<lambda>x. bindable [ticket_id, show_id, fst x, fst (snd x), snd (snd x)]) details"
    and "(\<exists>x \<in> set details. (show_id, fst x, fst (snd x)) \<in> set (map seat_key (ticket_seat_tbl d)))
          \<or> \<not> distinct (map (\<lambda>x. (fst x, fst (snd x))) details)"
  shows "insert_seats d ticket_id show_id details = Inl IntegrityError"
  using assms
proof (induction details arbitrary: d)
  case Nil
  then show ?case by simp
next
  case (Cons x details)
  obtain row col price where x: "x = (row, col, price)" by (cases x)
  from Cons.prems(1) x have b: "bindable [ticket_id, show_id, row, col, price]"
    and bs: "list_all (\<lambda>x. bindable [ticket_id, show_id, fst x, fst (snd x), snd (snd x)]) details"
    by simp_all
  show ?case
  proof (cases "insert_ticket_seat d ticket_id show_id row col price")
    case (Inl e)
    from insert_ticket_seat_Inl [OF Inl b] Inl show ?thesis by (simp add: x)
  next
    case (Inr d')
    from insert_ticket_seat_keys [OF Inr] have
      k: "map seat_key (ticket_seat_tbl d') = map seat_key (ticket_seat_tbl d) @ [(show_id, row, col)]"
      and nk: "(show_id, row, col) \<notin> set (map seat_key (ticket_seat_tbl d))" by simp_all
    have "(\<exists>y \<in> set details. (show_id, fst y, fst (snd y)) \<in> set (map seat_key (ticket_seat_tbl d')))
            \<or> \<not> distinct (map (\<lambda>x. (fst x, fst (snd x))) details)"
      using Cons.prems(2) nk unfolding k x by auto
    from Cons.IH [OF bs this] Inr show ?thesis by (simp add: x)
  qed
qed

lemma priced_keys: "map (\<lambda>x. (fst x, fst (snd x))) (priced price_of seats) = seats"
  by (induction seats) (auto simp: priced_def)

lemma priced_bindable:
  assumes "seats_bindable show_id seats" "sqlite_int ticket_id"
  shows "list_all (\<lambda>x. bindable [ticket_id, show_id, fst x, fst (snd x), snd (snd x)])
           (priced get_price seats)"
  using assms(1)
  by (induction seats)
     (auto simp: priced_def seats_bindable_def bindable_def assms(2) sqlite_int_get_price)

lemma insert_seats_unbindable_ticket:
  assumes "\<not> sqlite_int ticket_id" "details \<noteq> []"
  shows "insert_seats d ticket_id show_id details = Inl OverflowError"
proof -
  from assms(2) obtain row col price rest where "details = (row, col, price) # rest"
    by (cases details) auto
  then show ?thesis using assms(1) by (simp add: insert_ticket_seat_def bindable_def)
qed

lemma book_seats_duplicate:
  assumes "\<not> distinct seats" "precheck_error (db st) show_id seats = None"
  shows "book_seats st show_id user_name user_mobile seats rows cols
           = (Inl (if sqlite_int (sum_list (map (\<lambda>(row, col). get_price row) seats))
                      \<and> sqlite_int (next_rowid (map t_id (ticket_tbl (db st))))
                   then IntegrityError else OverflowError),
              st\<lparr>locks := insert show_id (locks st)\<rparr>)"
proof -
  let ?tp = "sum_list (map (\<lambda>(row, col). get_price row) seats)"
  let ?tid = "next_rowid (map t_id (ticket_tbl (db st)))"
  from assms(1) have ne: "seats \<noteq> []" by auto
  have sb: "seats_bindable show_id seats" by (rule precheck_error_None_bindable [OF assms(2)])
  from ne obtain row col rest where "seats = (row, col) # rest" by (cases seats) auto
  with sb have sid: "sqlite_int show_id" by (simp add: seats_bindable_def bindable_def)
  note u = book_seats_with_locked [OF ne assms(2), of get_price user_name user_mobile rows cols]
  show ?thesis
  proof (cases "sqlite_int ?tp")
    case False
    then have "insert_ticket (db st) show_id user_name user_mobile ?tp = Inl OverflowError"
      by (simp add: insert_ticket_def bindable_def)
    with False show ?thesis by (simp add: book_seats_def u)
  next
    case tp: True
    define d1 where "d1 = (db st)\<lparr>ticket_tbl := ticket_tbl (db st) @
                   [\<lparr>t_id = ?tid, t_show_id = show_id, t_user = user_name,
                     t_mobile = user_mobile, t_status = ''BOOKED'', t_total = ?tp\<rparr>]\<rparr>"
    have it: "insert_ticket (db st) show_id user_name user_mobile ?tp = Inr (?tid, d1)"
      using tp sid by (simp add: insert_ticket_def bindable_def Let_def d1_def)
    have pne: "priced get_price seats \<noteq> []" using ne by (simp add: priced_def)
    show ?thesis
    proof (cases "sqlite_int ?tid")
      case False
      from insert_seats_unbindable_ticket [OF False pne]
      show ?thesis using False by (simp add: book_seats_def u it)
    next
      case True
      have "insert_seats d1 ?tid show_id (priced get_price seats) = Inl IntegrityError"
        by (rule insert_seats_clash [OF priced_bindable [OF sb True]])
           (simp add: priced_keys assms(1))
      then show ?thesis using True tp by (simp add: book_seats_def u it)
    qed
  qed
qed

lemma precheck_error_Some:
  "precheck_error d show_id seats = Some e \<Longrightarrow>
     \<not> is_InvalidRequest e
     \<and> (e = OverflowError \<or> e = ChrArgError
          \<or> (\<exists>(row, col) \<in> set seats.
                e = SeatAlreadyBooked row col \<and> \<not> is_seat_available d show_id row col))"
proof (induction seats)
  case Nil
  then show ?case by simp
next
  case (Cons rc seats)
  obtain row col where rc: "rc = (row, col)" by (cases rc)
  show ?case
  proof (cases "bindable [show_id, row, col]")
    case False
    with Cons.prems rc show ?thesis by (simp add: is_InvalidRequest_def)
  next
    case b: True
    show ?thesis
    proof (cases "is_seat_available d show_id row col")
      case False
      with Cons.prems rc b have "e = already_booked row col" by simp
      with False rc show ?thesis
        by (auto simp: already_booked_def is_InvalidRequest_def)
    next
      case True
      with Cons.prems rc b have "precheck_error d show_id seats = Some e" by simp
      from Cons.IH [OF this] show ?thesis by auto
    qed
  qed
qed

text \<open>
  Claim C2, as the code has it. A call of \<^verbatim>\<open>book_seats\<close> with no seats fails with
  the "No seats provided" error (InvalidRequest) before the lock registry or the
  database is touched. A call whose seat list repeats a pair never succeeds and leaves
  the database as it was. When the lock-free loop meets a seat whose parameters cannot
  be bound, or which is taken, the call fails there, before any lock, with that seat's
  error: OverflowError, or the "already booked" error, or the failure of
  \<^verbatim>\<open>chr(65+row)\<close> when the row of the taken seat is no code point. Otherwise the
  call fails inside the transaction, after the showing's lock was taken, and is rolled
  back: with IntegrityError, or with OverflowError when the total or the new ticket id
  cannot be bound. The outcome never depends on \<open>rows\<close> and \<open>cols\<close>.
\<close>

theorem book_seats_rejects:
  "(seats = [] \<longrightarrow>
      book_seats st show_id user_name user_mobile seats rows cols = (Inl NoSeatsProvided, st)
      \<and> is_InvalidRequest NoSeatsProvided)
   \<and> (\<not> distinct seats \<longrightarrow>
        (case precheck_error (db st) show_id seats of
           Some e \<Rightarrow> book_seats st show_id user_name user_mobile seats rows cols = (Inl e, st)
         | None \<Rightarrow>
             book_seats st show_id user_name user_mobile seats rows cols
               = (Inl (if sqlite_int (sum_list (map (\<lambda>(row, col). get_price row) seats))
                          \<and> sqlite_int (next_rowid (map t_id (ticket_tbl (db st))))
                       then IntegrityError else OverflowError),
                  st\<lparr>locks := insert show_id (locks st)\<rparr>)))
   \<and> (\<forall>e. precheck_error (db st) show_id seats = Some e \<longrightarrow>
          \<not> is_InvalidRequest e
          \<and> (e = OverflowError \<or> e = ChrArgError
               \<or> (\<exists>(row, col) \<in> set seats.
                     e = SeatAlreadyBooked row col
                     \<and> \<not> is_seat_available (db st) show_id row col)))
   \<and> book_seats st show_id user_name user_mobile seats rows cols
       = book_seats st show_id user_name user_mobile seats rows' cols'"
proof (intro conjI impI allI)
  assume "seats = []"
  then show "book_seats st show_id user_name user_mobile seats rows cols = (Inl NoSeatsProvided, st)"
    by (simp add: book_seats_def book_seats_with_empty)
next
  show "is_InvalidRequest NoSeatsProvided" by (simp add: is_InvalidRequest_def)
next
  assume d: "\<not> distinct seats"
  show "case precheck_error (db st) show_id seats of
           Some e \<Rightarrow> book_seats st show_id user_name user_mobile seats rows cols = (Inl e, st)
         | None \<Rightarrow>
             book_seats st show_id user_name user_mobile seats rows cols
               = (Inl (if sqlite_int (sum_list (map (\<lambda>(row, col). get_price row) seats))
                          \<and> sqlite_int (next_rowid (map t_id (ticket_tbl (db st))))
                       then IntegrityError else OverflowError),
                  st\<lparr>locks := insert show_id (locks st)\<rparr>)"
  proof (cases "precheck_error (db st) show_id seats")
    case None
    then show ?thesis by (simp add: book_seats_duplicate [OF d None])
  next
    case (Some e)
    then show ?thesis by (simp add: book_seats_def book_seats_with_precheck)
  qed
next
  fix e assume "precheck_error (db st) show_id seats = Some e"
  from precheck_error_Some [OF this]
  show "\<not> is_InvalidRequest e"
    and "e = OverflowError \<or> e = ChrArgError
               \<or> (\<exists>(row, col) \<in> set seats.
                     e = SeatAlreadyBooked row col
                     \<and> \<not> is_seat_available (db st) show_id row col)"
    by simp_all
next
  show "book_seats st show_id user_name user_mobile seats rows cols
       = book_seats st show_id user_name user_mobile seats rows' cols'"
    by (simp add: book_seats_def book_seats_with_def)
qed

theorem book_seats_rejects_witness:
  "book_seats empty_system 1 ''u'' ''m'' [] 7 7 = (Inl NoSeatsProvided, empty_system)
   \<and> book_seats empty_system 1 ''u'' ''m'' [(0, 0), (0, 0)] 7 7
       = (Inl IntegrityError, empty_system\<lparr>locks := insert 1 (locks empty_system)\<rparr>)
   \<and> book_seats empty_system 1 ''u'' ''m'' [(9223372036854775808, 0), (9223372036854775808, 0)] 7 7
       = (Inl OverflowError, empty_system)
   \<and> book_seats (run [Book 1 ''u'' ''m'' [(- 66, 0)] 7 7]) 1 ''v'' ''n'' [(- 66, 0), (- 66, 0)] 7 7
       = (Inl ChrArgError, run [Book 1 ''u'' ''m'' [(- 66, 0)] 7 7])
   \<and> book_seats (run [Book 1 ''u'' ''m'' [(0, 0)] 7 7]) 1 ''v'' ''n'' [(0, 0), (0, 0)] 7 7
       = (Inl (SeatAlreadyBooked 0 0), run [Book 1 ''u'' ''m'' [(0, 0)] 7 7])"
proof -
  let ?big = "[(9223372036854775808::int, 0::int), (9223372036854775808, 0)]"
  let ?S = "run [Book 1 ''u'' ''m'' [(- 66, 0)] 7 7]"
  let ?T = "run [Book 1 ''u'' ''m'' [(0, 0)] 7 7]"
  have a: "precheck_error (db empty_system) 1 [(0, 0), (0, 0)] = None" by code_simp
  have b: "\<not> distinct [(0::int, 0::int), (0, 0)]" by simp
  have c: "sqlite_int (sum_list (map (\<lambda>(row, col). get_price row) [(0::int, 0::int), (0, 0)]))
             \<and> sqlite_int (next_rowid (map t_id (ticket_tbl (db empty_system))))"
    by code_simp
  have a2: "precheck_error (db empty_system) 1 ?big = Some OverflowError" by code_simp
  have b2: "\<not> distinct ?big" by simp
  have a3: "precheck_error (db ?S) 1 [(- 66, 0), (- 66, 0)] = Some ChrArgError" by code_simp
  have b3: "\<not> distinct [(- 66::int, 0::int), (- 66, 0)]" by simp
  have a4: "precheck_error (db ?T) 1 [(0, 0), (0, 0)] = Some (SeatAlreadyBooked 0 0)" by code_simp
  from book_seats_rejects [where seats = "[]" and st = empty_system and show_id = 1
      and user_name = "''u''" and user_mobile = "''m''" and rows = 7 and cols = 7]
  have 1: "book_seats empty_system 1 ''u'' ''m'' [] 7 7 = (Inl NoSeatsProvided, empty_system)"
    by simp
  from book_seats_rejects [where seats = "[(0, 0), (0, 0)]" and st = empty_system and show_id = 1
      and user_name = "''u''" and user_mobile = "''m''" and rows = 7 and cols = 7] a b c
  have 2: "book_seats empty_system 1 ''u'' ''m'' [(0, 0), (0, 0)] 7 7
       = (Inl IntegrityError, empty_system\<lparr>locks := insert 1 (locks empty_system)\<rparr>)"
    by simp
  from book_seats_rejects [where seats = ?big and st = empty_system and show_id = 1
      and user_name = "''u''" and user_mobile = "''m''" and rows = 7 and cols = 7] a2 b2
  have 3: "book_seats empty_system 1 ''u'' ''m'' ?big 7 7 = (Inl OverflowError, empty_system)"
    by simp
  from book_seats_rejects [where seats = "[(- 66, 0), (- 66, 0)]" and st = ?S and show_id = 1
      and user_name = "''v''" and user_mobile = "''n''" and rows = 7 and cols = 7] a3 b3
  have 4: "book_seats ?S 1 ''v'' ''n'' [(- 66, 0), (- 66, 0)] 7 7 = (Inl ChrArgError, ?S)"
    by simp
  from book_seats_rejects [where seats = "[(0, 0), (0, 0)]" and st = ?T and show_id = 1
      and user_name = "''v''" and user_mobile = "''n''" and rows = 7 and cols = 7] a4 b
  have 5: "book_seats ?T 1 ''v'' ''n'' [(0, 0), (0, 0)] 7 7 = (Inl (SeatAlreadyBooked 0 0), ?T)"
    by simp
  from 1 2 3 4 5 show ?thesis by blast
qed

text \<open>
  \<^verbatim>\<open>book_seats\<close> never reads \<open>rows\<close> and \<open>cols\<close>: in an empty 7 x 7 showing a seat in
  row 7, or in column 7, is booked; and a repeated free seat fails with IntegrityError,
  which is not the InvalidRequest error, after the lock registry has changed.
\<close>

theorem book_seats_rejects_counterexample:
  "fst (book_seats empty_system 1 ''u'' ''m'' [(7, 0)] 7 7) = Inr (1, 150, [(7, 0, 150)])
   \<and> fst (book_seats empty_system 1 ''u'' ''m'' [(0, 7)] 7 7) = Inr (1, 100, [(0, 7, 100)])
   \<and> fst (book_seats empty_system 1 ''u'' ''m'' [(0, 0), (0, 0)] 7 7) = Inl IntegrityError
   \<and> \<not> is_InvalidRequest IntegrityError
   \<and> locks (snd (book_seats empty_system 1 ''u'' ''m'' [(0, 0), (0, 0)] 7 7)) \<noteq> locks empty_system"
  by code_simp

section \<open>Cancellation\<close>

lemma seats_bindable_Cons:
  "seats_bindable k ((row, col) # seats) \<longleftrightarrow> bindable [k, row, col] \<and> seats_bindable k seats"
  by (simp add: seats_bindable_def)

lemma snapshot_price_pair:
  "snapshot_price d ticket_id (row, col)
     = (case find (\<lambda>ts. ts_ticket_id ts = ticket_id \<and> ts_row ts = row \<and> ts_col ts = col)
               (ticket_seat_tbl d) of
          Some ts \<Rightarrow> ts_price ts
        | None \<Rightarrow> 0)"
  by (simp add: snapshot_price_def)

lemma refund_of_eq:
  "refund_of d ticket_id seats refund
     = (if seats_bindable ticket_id seats
        then Inr (refund + sum_list (map (snapshot_price d ticket_id) seats))
        else Inl OverflowError)"
proof (induction seats arbitrary: refund)
  case Nil
  then show ?case by (simp add: seats_bindable_def)
next
  case (Cons rc seats)
  obtain row col where rc: "rc = (row, col)" by (cases rc)
  show ?case
    by (simp add: rc Cons.IH seats_bindable_Cons snapshot_price_pair split: option.splits)
qed

lemma delete_seats_eq:
  "delete_seats d ticket_id seats
     = (if seats_bindable ticket_id seats
        then Inr (d\<lparr>ticket_seat_tbl :=
               filter (\<lambda>ts. \<not> (ts_ticket_id ts = ticket_id \<and> (ts_row ts, ts_col ts) \<in> set seats))
                 (ticket_seat_tbl d)\<rparr>)
        else Inl OverflowError)"
proof (induction seats arbitrary: d)
  case Nil
  then show ?case by (simp add: seats_bindable_def)
next
  case (Cons rc seats)
  obtain row col where rc: "rc = (row, col)" by (cases rc)
  define d1 where "d1 = d\<lparr>ticket_seat_tbl :=
            filter (\<lambda>ts. \<not> (ts_ticket_id ts = ticket_id \<and> ts_row ts = row \<and> ts_col ts = col))
              (ticket_seat_tbl d)\<rparr>"
  show ?case
  proof (cases "bindable [ticket_id, row, col]")
    case False
    then show ?thesis by (simp add: rc seats_bindable_Cons)
  next
    case b: True
    then have step: "delete_seats d ticket_id (rc # seats) = delete_seats d1 ticket_id seats"
      by (simp add: rc d1_def)
    show ?thesis
    proof (cases "seats_bindable ticket_id seats")
      case False
      then show ?thesis unfolding step Cons.IH [of d1] by (simp add: rc seats_bindable_Cons)
    next
      case True
      have f: "filter (\<lambda>ts. \<not> (ts_ticket_id ts = ticket_id \<and> (ts_row ts, ts_col ts) \<in> set seats))
                 (ticket_seat_tbl d1)
            = filter (\<lambda>ts. \<not> (ts_ticket_id ts = ticket_id
                           \<and> (ts_row ts, ts_col ts) \<in> set (rc # seats))) (ticket_seat_tbl d)"
        by (auto simp: rc d1_def intro!: filter_cong)
      have "delete_seats d ticket_id (rc # seats)
          = Inr (d1\<lparr>ticket_seat_tbl :=
               filter (\<lambda>ts. \<not> (ts_ticket_id ts = ticket_id \<and> (ts_row ts, ts_col ts) \<in> set seats))
                 (ticket_seat_tbl d1)\<rparr>)"
        unfolding step Cons.IH [of d1] using True by simp
      also have "\<dots> = Inr (d\<lparr>ticket_seat_tbl :=
               filter (\<lambda>ts. \<not> (ts_ticket_id ts = ticket_id
                             \<and> (ts_row ts, ts_col ts) \<in> set (rc # seats))) (ticket_seat_tbl d)\<rparr>)"
        unfolding f by (simp add: d1_def)
      finally show ?thesis using True b by (simp add: rc seats_bindable_Cons)
    qed
  qed
qed

text \<open>The database a cancellation that gets through leaves.\<close>

lemma owned_after_delete:
  "owned_seats (d\<lparr>ticket_seat_tbl :=
       filter (\<lambda>ts. \<not> (ts_ticket_id ts = ticket_id \<and> (ts_row ts, ts_col ts) \<in> set seats))
         (ticket_seat_tbl d)\<rparr>) ticket_id
     = filter (\<lambda>ts. (ts_row ts, ts_col ts) \<notin> set seats) (owned_seats d ticket_id)"
  by (auto simp: owned_seats_def intro!: filter_cong)

lemma find_booked_Some:
  "list_ex (\<lambda>t. t_id t = ticket_id \<and> t_status t = ''BOOKED'') ts
     \<Longrightarrow> \<exists>t. find (\<lambda>t. t_id t = ticket_id \<and> t_status t = ''BOOKED'') ts = Some t"
  by (cases "find (\<lambda>t. t_id t = ticket_id \<and> t_status t = ''BOOKED'') ts")
     (auto simp: find_None_iff list_ex_iff)

lemma cancel_seats_unbindable:
  assumes "\<not> sqlite_int ticket_id"
  shows "cancel_seats st ticket_id seats = (Inl OverflowError, st)"
  using assms by (simp add: cancel_seats_def transaction_def cancel_seats_tx_def bindable_def)

lemma cancel_seats_None:
  assumes "sqlite_int ticket_id"
    and "find (\<lambda>t. t_id t = ticket_id \<and> t_status t = ''BOOKED'') (ticket_tbl (db st)) = None"
  shows "cancel_seats st ticket_id seats = (Inl TicketNotFoundOrNotBooked, st)"
  using assms by (simp add: cancel_seats_def transaction_def cancel_seats_tx_def bindable_def)

lemma cancel_seats_overflow:
  assumes "find (\<lambda>t. t_id t = ticket_id \<and> t_status t = ''BOOKED'') (ticket_tbl (db st)) = Some t"
    and "\<not> seats_bindable ticket_id seats"
  shows "cancel_seats st ticket_id seats = (Inl OverflowError, st)"
  using assms
  by (simp add: cancel_seats_def transaction_def cancel_seats_tx_def refund_of_eq)

lemma cancel_seats_Some:
  assumes "sqlite_int ticket_id"
    and "find (\<lambda>t. t_id t = ticket_id \<and> t_status t = ''BOOKED'') (ticket_tbl (db st)) = Some t"
    and "seats_bindable ticket_id seats"
  shows "cancel_seats st ticket_id seats =
     (Inr (sum_list (map (snapshot_price (db st) ticket_id) seats)),
      st\<lparr>db := update_ticket ticket_id
              (if filter (\<lambda>ts. (ts_row ts, ts_col ts) \<notin> set seats) (owned_seats (db st) ticket_id) = []
               then (\<lambda>u. u\<lparr>t_status := ''CANCELLED'', t_total := 0\<rparr>)
               else (\<lambda>u. u\<lparr>t_total := t_total t
                                    - sum_list (map (snapshot_price (db st) ticket_id) seats)\<rparr>))
              ((db st)\<lparr>ticket_seat_tbl :=
                  filter (\<lambda>ts. \<not> (ts_ticket_id ts = ticket_id \<and> (ts_row ts, ts_col ts) \<in> set seats))
                    (ticket_seat_tbl (db st))\<rparr>)\<rparr>)"
proof -
  let ?d1 = "(db st)\<lparr>ticket_seat_tbl :=
                  filter (\<lambda>ts. \<not> (ts_ticket_id ts = ticket_id \<and> (ts_row ts, ts_col ts) \<in> set seats))
                    (ticket_seat_tbl (db st))\<rparr>"
  have r: "refund_of (db st) ticket_id seats 0
             = Inr (sum_list (map (snapshot_price (db st) ticket_id) seats))"
    by (simp add: refund_of_eq assms(3))
  have dl: "delete_seats (db st) ticket_id seats = Inr ?d1"
    by (simp only: delete_seats_eq assms(3) if_True)
  have ow: "owned_seats ?d1 ticket_id
              = filter (\<lambda>ts. (ts_row ts, ts_col ts) \<notin> set seats) (owned_seats (db st) ticket_id)"
    by (rule owned_after_delete)
  have b: "bindable [ticket_id]" using assms(1) by (simp add: bindable_def)
  have "cancel_seats_tx ticket_id seats (db st) =
     Inr (sum_list (map (snapshot_price (db st) ticket_id) seats),
          update_ticket ticket_id
              (if filter (\<lambda>ts. (ts_row ts, ts_col ts) \<notin> set seats) (owned_seats (db st) ticket_id) = []
               then (\<lambda>u. u\<lparr>t_status := ''CANCELLED'', t_total := 0\<rparr>)
               else (\<lambda>u. u\<lparr>t_total := t_total t
                                    - sum_list (map (snapshot_price (db st) ticket_id) seats)\<rparr>))
              ?d1)"
    unfolding cancel_seats_tx_def
    by (simp only: b assms(2) r dl ow Let_def not_True_eq_False if_False option.case sum.case
          length_0_conv split: if_splits) simp
  then show ?thesis by (simp add: cancel_seats_def transaction_def)
qed

lemma update_ticket_rows: "ticket_seat_tbl (update_ticket ticket_id f d) = ticket_seat_tbl d"
  by (simp add: update_ticket_def)

lemma update_ticket_tickets:
  "ticket_tbl (update_ticket ticket_id f d)
     = map (\<lambda>t. if t_id t = ticket_id then f t else t) (ticket_tbl d)"
  by (simp add: update_ticket_def)

text \<open>
  Claim C4, as the code has it. Take a call of \<^verbatim>\<open>cancel_seats\<close> on a ticket that exists
  with status BOOKED. When the ticket id and every requested row and column fit
  SQLite's integers, the call succeeds and the refund it returns is the sum, over the
  requested pairs, of the price snapshotted in this ticket's seat row for the pair; the
  seat rows of the ticket at a requested pair are deleted and no other row is; a
  requested pair that is no seat of the ticket adds nothing to the refund. When one of
  them does not fit, the call fails with OverflowError and nothing changes.
\<close>

theorem cancel_seats_refund:
  assumes "list_ex (\<lambda>t. t_id t = ticket_id \<and> t_status t = ''BOOKED'') (ticket_tbl (db st))"
  shows "(sqlite_int ticket_id \<and> seats_bindable ticket_id seats \<longrightarrow>
            fst (cancel_seats st ticket_id seats)
              = Inr (sum_list (map (snapshot_price (db st) ticket_id) seats))
            \<and> ticket_seat_tbl (db (snd (cancel_seats st ticket_id seats)))
              = filter (\<lambda>ts. \<not> (ts_ticket_id ts = ticket_id \<and> (ts_row ts, ts_col ts) \<in> set seats))
                  (ticket_seat_tbl (db st)))
     \<and> (\<not> (sqlite_int ticket_id \<and> seats_bindable ticket_id seats) \<longrightarrow>
            cancel_seats st ticket_id seats = (Inl OverflowError, st))
     \<and> (\<not> list_ex (\<lambda>ts. ts_ticket_id ts = ticket_id \<and> (ts_row ts, ts_col ts) = rc)
              (ticket_seat_tbl (db st))
          \<longrightarrow> snapshot_price (db st) ticket_id rc = 0)"
proof -
  from find_booked_Some [OF assms] obtain t where
    t: "find (\<lambda>t. t_id t = ticket_id \<and> t_status t = ''BOOKED'') (ticket_tbl (db st)) = Some t" ..
  have np: "\<not> list_ex (\<lambda>ts. ts_ticket_id ts = ticket_id \<and> (ts_row ts, ts_col ts) = rc)
              (ticket_seat_tbl (db st))
          \<Longrightarrow> snapshot_price (db st) ticket_id rc = 0"
  proof -
    assume "\<not> list_ex (\<lambda>ts. ts_ticket_id ts = ticket_id \<and> (ts_row ts, ts_col ts) = rc)
              (ticket_seat_tbl (db st))"
    then have "find (\<lambda>ts. ts_ticket_id ts = ticket_id \<and> (ts_row ts, ts_col ts) = rc)
              (ticket_seat_tbl (db st)) = None"
      by (simp add: find_None_iff list_ex_iff)
    then show ?thesis by (simp add: snapshot_price_def)
  qed
  have ok: "sqlite_int ticket_id \<Longrightarrow> seats_bindable ticket_id seats \<Longrightarrow>
            fst (cancel_seats st ticket_id seats)
              = Inr (sum_list (map (snapshot_price (db st) ticket_id) seats))
            \<and> ticket_seat_tbl (db (snd (cancel_seats st ticket_id seats)))
              = filter (\<lambda>ts. \<not> (ts_ticket_id ts = ticket_id \<and> (ts_row ts, ts_col ts) \<in> set seats))
                  (ticket_seat_tbl (db st))"
    by (simp add: cancel_seats_Some [OF _ t] update_ticket_rows)
  have bad: "\<not> (sqlite_int ticket_id \<and> seats_bindable ticket_id seats) \<Longrightarrow>
            cancel_seats st ticket_id seats = (Inl OverflowError, st)"
    using cancel_seats_unbindable [of ticket_id st seats] cancel_seats_overflow [OF t, of seats]
    by blast
  from np ok bad show ?thesis by blast
qed

theorem cancel_seats_refund_witness:
  "fst (cancel_seats (run [Book 1 ''u'' ''m'' [(0, 0), (3, 3)] 7 7]) 1 [(0, 0), (5, 5)]) = Inr 100
   \<and> map seat_fields (ticket_seat_tbl (db (snd
        (cancel_seats (run [Book 1 ''u'' ''m'' [(0, 0), (3, 3)] 7 7]) 1 [(0, 0), (5, 5)]))))
       = [(1, 1, 3, 3, 150)]
   \<and> snapshot_price (db (run [Book 1 ''u'' ''m'' [(0, 0), (3, 3)] 7 7])) 1 (5, 5) = 0
   \<and> cancel_seats (run [Book 1 ''u'' ''m'' [(0, 0), (3, 3)] 7 7]) 1
        [(0, 0), (9223372036854775808, 0)]
       = (Inl OverflowError, run [Book 1 ''u'' ''m'' [(0, 0), (3, 3)] 7 7])"
proof -
  let ?st = "run [Book 1 ''u'' ''m'' [(0, 0), (3, 3)] 7 7]"
  have h: "list_ex (\<lambda>t. t_id t = 1 \<and> t_status t = ''BOOKED'') (ticket_tbl (db ?st))"
    by code_simp
  have b: "sqlite_int 1 \<and> seats_bindable 1 [(0, 0), (5, 5)]" by code_simp
  have nb: "\<not> (sqlite_int 1 \<and> seats_bindable 1 [(0, 0), (9223372036854775808, 0)])" by code_simp
  have n: "\<not> list_ex (\<lambda>ts. ts_ticket_id ts = 1 \<and> (ts_row ts, ts_col ts) = (5, 5))
              (ticket_seat_tbl (db ?st))"
    by code_simp
  have s: "sum_list (map (snapshot_price (db ?st) 1) [(0, 0), (5, 5)]) = 100" by code_simp
  have f: "map seat_fields (filter (\<lambda>ts. \<not> (ts_ticket_id ts = 1
              \<and> (ts_row ts, ts_col ts) \<in> set [(0, 0), (5, 5)])) (ticket_seat_tbl (db ?st)))
            = [(1, 1, 3, 3, 150)]" by code_simp
  from cancel_seats_refund [OF h, of "[(0, 0), (5, 5)]" "(5, 5)"] b n s f
  have 1: "fst (cancel_seats ?st 1 [(0, 0), (5, 5)]) = Inr 100
     \<and> map seat_fields (ticket_seat_tbl (db (snd (cancel_seats ?st 1 [(0, 0), (5, 5)]))))
         = [(1, 1, 3, 3, 150)]
     \<and> snapshot_price (db ?st) 1 (5, 5) = 0" by simp
  from cancel_seats_refund [OF h, of "[(0, 0), (9223372036854775808, 0)]" "(5, 5)"] nb
  have 2: "cancel_seats ?st 1 [(0, 0), (9223372036854775808, 0)] = (Inl OverflowError, ?st)"
    by blast
  from 1 2 show ?thesis by blast
qed

text \<open>
  A requested pair that is no seat of the reservation can make the call fail: row
  \<open>2 ^ 63\<close> cannot be bound, and the whole cancellation, the seat (0, 0) included, is
  refused.
\<close>

theorem cancel_seats_refund_counterexample:
  "list_ex (\<lambda>t. t_id t = 1 \<and> t_status t = ''BOOKED'')
     (ticket_tbl (db (run [Book 1 ''u'' ''m'' [(0, 0), (3, 3)] 7 7])))
   \<and> \<not> list_ex (\<lambda>ts. ts_ticket_id ts = 1 \<and> (ts_row ts, ts_col ts) = (9223372036854775808, 0))
         (ticket_seat_tbl (db (run [Book 1 ''u'' ''m'' [(0, 0), (3, 3)] 7 7])))
   \<and> fst (cancel_seats (run [Book 1 ''u'' ''m'' [(0, 0), (3, 3)] 7 7]) 1
             [(0, 0), (9223372036854775808, 0)]) = Inl OverflowError
   \<and> map seat_fields (ticket_seat_tbl (db (snd (cancel_seats
        (run [Book 1 ''u'' ''m'' [(0, 0), (3, 3)] 7 7]) 1 [(0, 0), (9223372036854775808, 0)]))))
       = [(1, 1, 0, 0, 100), (1, 1, 3, 3, 150)]"
  by code_simp

lemma cancel_seats_Inr:
  assumes "cancel_seats st ticket_id seats = (Inr refund, st')"
  obtains t where "sqlite_int ticket_id"
    "find (\<lambda>t. t_id t = ticket_id \<and> t_status t = ''BOOKED'') (ticket_tbl (db st)) = Some t"
    "seats_bindable ticket_id seats"
proof -
  have s: "sqlite_int ticket_id"
  proof (rule ccontr)
    assume "\<not> sqlite_int ticket_id"
    from cancel_seats_unbindable [OF this, of st seats] assms show False by simp
  qed
  obtain t where
    t: "find (\<lambda>t. t_id t = ticket_id \<and> t_status t = ''BOOKED'') (ticket_tbl (db st)) = Some t"
  proof (cases "find (\<lambda>t. t_id t = ticket_id \<and> t_status t = ''BOOKED'') (ticket_tbl (db st))")
    case None
    from cancel_seats_None [OF s None, of seats] assms show ?thesis by simp
  next
    case (Some t)
    then show ?thesis by (rule that)
  qed
  have b: "seats_bindable ticket_id seats"
  proof (rule ccontr)
    assume "\<not> seats_bindable ticket_id seats"
    from cancel_seats_overflow [OF t this] assms show False by simp
  qed
  from s t b show ?thesis by (rule that)
qed

lemma find_distinct_id:
  assumes "distinct (map t_id ts)" "t \<in> set ts"
  shows "find (\<lambda>u. t_id u = t_id t) ts = Some t"
  using assms
proof (induction ts)
  case Nil
  then show ?case by simp
next
  case (Cons a ts)
  show ?case
  proof (cases "a = t")
    case True
    then show ?thesis by simp
  next
    case False
    with Cons.prems have in_ts: "t \<in> set ts" by simp
    with Cons.prems(1) have "t_id a \<noteq> t_id t" by (auto simp: image_iff)
    with Cons.IH Cons.prems(1) in_ts show ?thesis by simp
  qed
qed

lemma find_map_update:
  assumes "find (\<lambda>u. t_id u = k) ts = Some t" "\<And>u. t_id (f u) = t_id u"
  shows "find (\<lambda>u. t_id u = k) (map (\<lambda>u. if t_id u = k then f u else u) ts) = Some (f t)"
  using assms(1)
proof (induction ts)
  case Nil
  then show ?case by simp
next
  case (Cons a ts)
  then show ?case by (cases "t_id a = k") (auto simp: assms(2))
qed

lemma filter_map_update:
  "filter (\<lambda>u. t_id u \<noteq> k) (map (\<lambda>u. if t_id u = k then f u else u) ts)
     = filter (\<lambda>u. t_id u \<noteq> k) ts"
  if "\<And>u. t_id (f u) = t_id u"
  by (induction ts) (auto simp: that)

text \<open>Sums of prices over the seat rows a cancellation removes.\<close>

lemma find_conj_filter: "find (\<lambda>x. P x \<and> Q x) xs = find Q (filter P xs)"
  by (induction xs) auto

lemma sum_filter_key:
  assumes "distinct (map k xs)"
  shows "sum_list (map f (filter (\<lambda>x. k x = rc) xs))
           = (case find (\<lambda>x. k x = rc) xs of Some x \<Rightarrow> f x | None \<Rightarrow> (0::int))"
  using assms
proof (induction xs)
  case Nil
  then show ?case by simp
next
  case (Cons x xs)
  show ?case
  proof (cases "k x = rc")
    case True
    with Cons.prems have "rc \<notin> k ` set xs" by auto
    then have "filter (\<lambda>x. k x = rc) xs = []" by (auto simp: filter_empty_conv)
    with True show ?thesis by simp
  next
    case False
    with Cons show ?thesis by simp
  qed
qed

lemma sum_filter_insert:
  assumes "rc \<notin> set S"
  shows "sum_list (map f (filter (\<lambda>x. k x \<in> set (rc # S)) xs))
           = sum_list (map f (filter (\<lambda>x. k x = rc) xs))
             + (sum_list (map f (filter (\<lambda>x. k x \<in> set S) xs)) :: int)"
  using assms by (induction xs) auto

lemma sum_filter_keys:
  assumes "distinct S" "distinct (map k xs)"
  shows "sum_list (map (\<lambda>rc. case find (\<lambda>x. k x = rc) xs of Some x \<Rightarrow> f x | None \<Rightarrow> (0::int)) S)
           = sum_list (map f (filter (\<lambda>x. k x \<in> set S) xs))"
  using assms(1)
proof (induction S)
  case Nil
  then show ?case by simp
next
  case (Cons rc S)
  then have "rc \<notin> set S" "distinct S" by simp_all
  with Cons.IH show ?case
    by (simp only: sum_filter_insert [OF \<open>rc \<notin> set S\<close>] sum_filter_key [OF assms(2)]
          list.map sum_list.Cons)
qed

lemma sum_filter_split:
  "sum_list (map f xs)
     = sum_list (map f (filter P xs)) + (sum_list (map f (filter (\<lambda>x. \<not> P x) xs)) :: int)"
  by (induction xs) auto

lemma snapshot_price_owned:
  "snapshot_price d ticket_id rc
     = (case find (\<lambda>ts. (ts_row ts, ts_col ts) = rc) (owned_seats d ticket_id) of
          Some ts \<Rightarrow> ts_price ts | None \<Rightarrow> 0)"
  by (simp only: snapshot_price_def owned_seats_def find_conj_filter)

lemma refund_distinct:
  assumes "distinct seats"
    and "distinct (map (\<lambda>ts. (ts_row ts, ts_col ts)) (owned_seats d ticket_id))"
  shows "sum_list (map ts_price (owned_seats d ticket_id))
           - sum_list (map (snapshot_price d ticket_id) seats)
         = sum_list (map ts_price
             (filter (\<lambda>ts. (ts_row ts, ts_col ts) \<notin> set seats) (owned_seats d ticket_id)))"
proof -
  let ?O = "owned_seats d ticket_id"
  have e: "snapshot_price d ticket_id
      = (\<lambda>rc. case find (\<lambda>ts. (ts_row ts, ts_col ts) = rc) ?O of
                 Some ts \<Rightarrow> ts_price ts | None \<Rightarrow> 0)"
    by (rule ext) (rule snapshot_price_owned)
  have "sum_list (map (snapshot_price d ticket_id) seats)
      = sum_list (map ts_price (filter (\<lambda>ts. (ts_row ts, ts_col ts) \<in> set seats) ?O))"
    unfolding e by (rule sum_filter_keys [OF assms])
  moreover have "sum_list (map ts_price ?O)
      = sum_list (map ts_price (filter (\<lambda>ts. (ts_row ts, ts_col ts) \<in> set seats) ?O))
        + sum_list (map ts_price (filter (\<lambda>ts. (ts_row ts, ts_col ts) \<notin> set seats) ?O))"
    by (rule sum_filter_split)
  ultimately show ?thesis by simp
qed

text \<open>
  Claim C5, as the code has it. After every successful call of \<^verbatim>\<open>cancel_seats\<close> (on a
  ticket table whose ids are distinct, as the primary key makes them): the ticket was
  BOOKED; if none of its seat rows remains its status is CANCELLED and its total 0;
  otherwise its status and other columns are as before and its total is the previous
  total minus the refund, committed whatever its sign; no other ticket changes. When
  the requested pairs are distinct, the ticket's seat rows have distinct pairs and its
  total was the sum of their prices, the new total is the sum of the prices of the seat
  rows that remain.
\<close>

theorem cancel_seats_status_total:
  assumes "distinct (map t_id (ticket_tbl (db st)))"
    and "cancel_seats st ticket_id seats = (Inr refund, st')"
  shows "\<exists>t. find (\<lambda>u. t_id u = ticket_id) (ticket_tbl (db st)) = Some t
           \<and> t_status t = ''BOOKED''
           \<and> find (\<lambda>u. t_id u = ticket_id) (ticket_tbl (db st'))
               = Some (if owned_seats (db st') ticket_id = []
                       then t\<lparr>t_status := ''CANCELLED'', t_total := 0\<rparr>
                       else t\<lparr>t_total := t_total t - refund\<rparr>)
           \<and> filter (\<lambda>u. t_id u \<noteq> ticket_id) (ticket_tbl (db st'))
               = filter (\<lambda>u. t_id u \<noteq> ticket_id) (ticket_tbl (db st))
           \<and> (distinct seats
                \<and> distinct (map (\<lambda>ts. (ts_row ts, ts_col ts)) (owned_seats (db st) ticket_id))
                \<and> t_total t = sum_list (map ts_price (owned_seats (db st) ticket_id))
              \<longrightarrow> (if owned_seats (db st') ticket_id = [] then 0 else t_total t - refund)
                    = sum_list (map ts_price (owned_seats (db st') ticket_id)))"
proof -
  from assms(2) obtain t where s: "sqlite_int ticket_id"
    and t: "find (\<lambda>t. t_id t = ticket_id \<and> t_status t = ''BOOKED'') (ticket_tbl (db st)) = Some t"
    and b: "seats_bindable ticket_id seats"
    by (rule cancel_seats_Inr)
  let ?rem = "filter (\<lambda>ts. (ts_row ts, ts_col ts) \<notin> set seats) (owned_seats (db st) ticket_id)"
  let ?f = "if ?rem = []
            then (\<lambda>u. u\<lparr>t_status := ''CANCELLED'', t_total := 0\<rparr>)
            else (\<lambda>u. u\<lparr>t_total := t_total t
                             - sum_list (map (snapshot_price (db st) ticket_id) seats)\<rparr>)"
  note c = cancel_seats_Some [OF s t b]
  from assms(2) c have refund: "refund = sum_list (map (snapshot_price (db st) ticket_id) seats)"
    and st': "st' = st\<lparr>db := update_ticket ticket_id ?f
              ((db st)\<lparr>ticket_seat_tbl :=
                  filter (\<lambda>ts. \<not> (ts_ticket_id ts = ticket_id \<and> (ts_row ts, ts_col ts) \<in> set seats))
                    (ticket_seat_tbl (db st))\<rparr>)\<rparr>"
    by simp_all
  have own: "owned_seats (db st') ticket_id = ?rem"
    unfolding st' by (simp add: owned_seats_def update_ticket_def) (auto intro!: filter_cong)
  have tk: "ticket_tbl (db st')
              = map (\<lambda>u. if t_id u = ticket_id then ?f u else u) (ticket_tbl (db st))"
    unfolding st' by (simp add: update_ticket_def)
  have fid: "\<And>u. t_id (?f u) = t_id u" by simp
  from t have tin: "t \<in> set (ticket_tbl (db st))" and tid: "t_id t = ticket_id"
    and booked: "t_status t = ''BOOKED''"
    by (auto simp: find_Some_iff)
  from find_distinct_id [OF assms(1) tin] tid
  have f0: "find (\<lambda>u. t_id u = ticket_id) (ticket_tbl (db st)) = Some t" by simp
  have f1: "find (\<lambda>u. t_id u = ticket_id) (ticket_tbl (db st')) = Some (?f t)"
    unfolding tk by (rule find_map_update [OF f0 fid])
  have f1': "?f t = (if owned_seats (db st') ticket_id = []
                       then t\<lparr>t_status := ''CANCELLED'', t_total := 0\<rparr>
                       else t\<lparr>t_total := t_total t - refund\<rparr>)"
    by (simp add: own refund)
  have others: "filter (\<lambda>u. t_id u \<noteq> ticket_id) (ticket_tbl (db st'))
               = filter (\<lambda>u. t_id u \<noteq> ticket_id) (ticket_tbl (db st))"
    unfolding tk by (rule filter_map_update [OF fid])
  have sums: "distinct seats
                \<and> distinct (map (\<lambda>ts. (ts_row ts, ts_col ts)) (owned_seats (db st) ticket_id))
                \<and> t_total t = sum_list (map ts_price (owned_seats (db st) ticket_id))
              \<Longrightarrow> (if owned_seats (db st') ticket_id = [] then 0 else t_total t - refund)
                    = sum_list (map ts_price (owned_seats (db st') ticket_id))"
  proof -
    assume a: "distinct seats
                \<and> distinct (map (\<lambda>ts. (ts_row ts, ts_col ts)) (owned_seats (db st) ticket_id))
                \<and> t_total t = sum_list (map ts_price (owned_seats (db st) ticket_id))"
    then have "t_total t - refund = sum_list (map ts_price ?rem)"
      using refund_distinct [of seats "db st" ticket_id] by (simp add: refund)
    then show ?thesis by (simp add: own)
  qed
  from f0 booked f1 f1' others sums show ?thesis by (intro exI [of _ t]) simp
qed

theorem cancel_seats_status_total_witness:
  "find (\<lambda>u. t_id u = 1) (ticket_tbl (db (snd
      (cancel_seats (run [Book 1 ''u'' ''m'' [(0, 0), (3, 3)] 7 7]) 1 [(0, 0)]))))
     = Some \<lparr>t_id = 1, t_show_id = 1, t_user = ''u'', t_mobile = ''m'',
             t_status = ''BOOKED'', t_total = 150\<rparr>
   \<and> find (\<lambda>u. t_id u = 1) (ticket_tbl (db (snd
      (cancel_seats (run [Book 1 ''u'' ''m'' [(0, 0), (3, 3)] 7 7, Cancel 1 [(0, 0)]]) 1 [(3, 3)]))))
     = Some \<lparr>t_id = 1, t_show_id = 1, t_user = ''u'', t_mobile = ''m'',
             t_status = ''CANCELLED'', t_total = 0\<rparr>"
proof -
  let ?S = "run [Book 1 ''u'' ''m'' [(0, 0), (3, 3)] 7 7]"
  let ?T = "run [Book 1 ''u'' ''m'' [(0, 0), (3, 3)] 7 7, Cancel 1 [(0, 0)]]"
  let ?r = "cancel_seats ?S 1 [(0, 0)]"
  let ?q = "cancel_seats ?T 1 [(3, 3)]"
  have d: "distinct (map t_id (ticket_tbl (db ?S)))" by code_simp
  have e: "fst ?r = Inr 100" by code_simp
  obtain st' where r: "?r = (Inr 100, st')" using e by (cases ?r) simp
  have t0: "find (\<lambda>u. t_id u = 1) (ticket_tbl (db ?S))
              = Some \<lparr>t_id = 1, t_show_id = 1, t_user = ''u'', t_mobile = ''m'',
                      t_status = ''BOOKED'', t_total = 250\<rparr>" by code_simp
  have o: "owned_seats (db (snd ?r)) 1 \<noteq> []" by code_simp
  from cancel_seats_status_total [OF d r] obtain t where
    t: "find (\<lambda>u. t_id u = 1) (ticket_tbl (db ?S)) = Some t"
    and n: "find (\<lambda>u. t_id u = 1) (ticket_tbl (db st'))
               = Some (if owned_seats (db st') 1 = []
                       then t\<lparr>t_status := ''CANCELLED'', t_total := 0\<rparr>
                       else t\<lparr>t_total := t_total t - 100\<rparr>)"
    by blast
  from t t0 have teq: "t = \<lparr>t_id = 1, t_show_id = 1, t_user = ''u'', t_mobile = ''m'',
                      t_status = ''BOOKED'', t_total = 250\<rparr>" by simp
  from o have o': "owned_seats (db st') 1 \<noteq> []" by (simp add: r)
  from n o' have 1: "find (\<lambda>u. t_id u = 1) (ticket_tbl (db (snd ?r)))
     = Some \<lparr>t_id = 1, t_show_id = 1, t_user = ''u'', t_mobile = ''m'',
             t_status = ''BOOKED'', t_total = 150\<rparr>"
    by (simp add: r teq)
  have d2: "distinct (map t_id (ticket_tbl (db ?T)))" by code_simp
  have e2: "fst ?q = Inr 150" by code_simp
  obtain st2 where q: "?q = (Inr 150, st2)" using e2 by (cases ?q) simp
  have t2: "find (\<lambda>u. t_id u = 1) (ticket_tbl (db ?T))
              = Some \<lparr>t_id = 1, t_show_id = 1, t_user = ''u'', t_mobile = ''m'',
                      t_status = ''BOOKED'', t_total = 150\<rparr>" by code_simp
  have o2: "owned_seats (db (snd ?q)) 1 = []" by code_simp
  from cancel_seats_status_total [OF d2 q] obtain u where
    u: "find (\<lambda>u. t_id u = 1) (ticket_tbl (db ?T)) = Some u"
    and n2: "find (\<lambda>u. t_id u = 1) (ticket_tbl (db st2))
               = Some (if owned_seats (db st2) 1 = []
                       then u\<lparr>t_status := ''CANCELLED'', t_total := 0\<rparr>
                       else u\<lparr>t_total := t_total u - 150\<rparr>)"
    by blast
  from u t2 have ueq: "u = \<lparr>t_id = 1, t_show_id = 1, t_user = ''u'', t_mobile = ''m'',
                      t_status = ''BOOKED'', t_total = 150\<rparr>" by simp
  from o2 have o2': "owned_seats (db st2) 1 = []" by (simp add: q)
  from n2 o2' have 2: "find (\<lambda>u. t_id u = 1) (ticket_tbl (db (snd ?q)))
     = Some \<lparr>t_id = 1, t_show_id = 1, t_user = ''u'', t_mobile = ''m'',
             t_status = ''CANCELLED'', t_total = 0\<rparr>"
    by (simp add: q ueq)
  from 1 2 show ?thesis by (rule conjI)
qed

text \<open>
  No check stands before the update: a ticket with seats (0, 0) and (0, 1) and total 200,
  asked to cancel (0, 0) three times, is refunded 300, keeps seat (0, 1) and status
  BOOKED, and its total -100 is committed.
\<close>

theorem cancel_seats_status_total_counterexample:
  "fst (cancel_seats (run [Book 1 ''u'' ''m'' [(0, 0), (0, 1)] 7 7]) 1 [(0, 0), (0, 0), (0, 0)])
     = Inr 300
   \<and> map (\<lambda>t. (t_id t, t_status t, t_total t)) (ticket_tbl (db (snd
        (cancel_seats (run [Book 1 ''u'' ''m'' [(0, 0), (0, 1)] 7 7]) 1 [(0, 0), (0, 0), (0, 0)]))))
       = [(1, ''BOOKED'', - 100)]
   \<and> map seat_fields (ticket_seat_tbl (db (snd
        (cancel_seats (run [Book 1 ''u'' ''m'' [(0, 0), (0, 1)] 7 7]) 1 [(0, 0), (0, 0), (0, 0)]))))
       = [(1, 1, 0, 1, 100)]"
  by code_simp

section \<open>The invariant of the tables\<close>

lemma insert_seats_keys:
  "insert_seats d ticket_id show_id details = Inr d'
     \<Longrightarrow> distinct (map seat_key (ticket_seat_tbl d))
     \<Longrightarrow> distinct (map seat_key (ticket_seat_tbl d'))"
proof (induction details arbitrary: d)
  case Nil
  then show ?case by simp
next
  case (Cons x details)
  obtain row col price where x: "x = (row, col, price)" by (cases x)
  from Cons.prems(1) x obtain d1 where
    d1: "insert_ticket_seat d ticket_id show_id row col price = Inr d1"
    and rest: "insert_seats d1 ticket_id show_id details = Inr d'"
    by (auto split: sum.splits)
  from insert_ticket_seat_keys [OF d1] Cons.prems(2)
  have "distinct (map seat_key (ticket_seat_tbl d1))" by simp
  from Cons.IH [OF rest this] show ?case .
qed

lemma insert_seats_bindable:
  "insert_seats d ticket_id show_id details = Inr d' \<Longrightarrow> details \<noteq> [] \<Longrightarrow> sqlite_int ticket_id"
proof -
  assume a: "insert_seats d ticket_id show_id details = Inr d'" and ne: "details \<noteq> []"
  from ne obtain row col price rest where d: "details = (row, col, price) # rest"
    by (cases details) auto
  show ?thesis
  proof (rule ccontr)
    assume "\<not> sqlite_int ticket_id"
    from insert_seats_unbindable_ticket [OF this ne, of d show_id] a show False by simp
  qed
qed

lemma book_seats_with_steps:
  assumes "book_seats_with price_of st show_id user_name user_mobile seats rows cols
             = (Inr (ticket_id, tot, confirmed), st')"
  obtains d1 where
    "insert_ticket (db st) show_id user_name user_mobile tot = Inr (ticket_id, d1)"
    "insert_seats d1 ticket_id show_id (priced price_of seats) = Inr (db st')"
proof -
  let ?tp = "sum_list (map (\<lambda>(row, col). price_of row) seats)"
  from book_seats_with_Inr [OF assms] have ne: "seats \<noteq> []"
    and pe: "precheck_error (db st) show_id seats = None" and tot: "tot = ?tp" by simp_all
  note u = assms [unfolded book_seats_with_locked [OF ne pe]]
  from u obtain tid1 d1 where
    it: "insert_ticket (db st) show_id user_name user_mobile ?tp = Inr (tid1, d1)"
    by (cases "insert_ticket (db st) show_id user_name user_mobile ?tp") auto
  from u it obtain d2 where ins0: "insert_seats d1 tid1 show_id (priced price_of seats) = Inr d2"
    by (cases "insert_seats d1 tid1 show_id (priced price_of seats)") auto
  from u it ins0 have "tid1 = ticket_id" by simp
  moreover from u it ins0 have "st' = st\<lparr>locks := insert show_id (locks st), db := d2\<rparr>"
    by simp
  then have "db st' = d2" by simp
  ultimately have "tid1 = ticket_id" "db st' = d2" by simp_all
  with it ins0 tot show ?thesis by (intro that [of d1]) simp_all
qed

lemma book_seats_with_inv:
  assumes "db_inv (db st)"
  shows "db_inv (db (snd (book_seats_with price_of st show_id user_name user_mobile seats rows cols)))"
proof (cases rule: book_seats_with_result_cases
         [of price_of st show_id user_name user_mobile seats rows cols])
  case (err e st')
  with assms show ?thesis by (simp add: book_seats_with_Inl [OF err])
next
  case (ok ticket_id tot confirmed st')
  from book_seats_with_Inr [OF ok] obtain new_rows where
    tid: "ticket_id = next_rowid (map t_id (ticket_tbl (db st)))"
    and tk: "ticket_tbl (db st') = ticket_tbl (db st) @
          [\<lparr>t_id = ticket_id, t_show_id = show_id, t_user = user_name, t_mobile = user_mobile,
            t_status = ''BOOKED'', t_total = tot\<rparr>]"
    and rows: "ticket_seat_tbl (db st') = ticket_seat_tbl (db st) @ new_rows"
    and nf: "map seat_fields new_rows
          = map (\<lambda>(row, col). (ticket_id, show_id, row, col, price_of row)) seats"
    by blast
  from ok obtain d1 where
    it: "insert_ticket (db st) show_id user_name user_mobile tot = Inr (ticket_id, d1)"
    and ins: "insert_seats d1 ticket_id show_id (priced price_of seats) = Inr (db st')"
    by (rule book_seats_with_steps)
  from it have d1: "ticket_seat_tbl d1 = ticket_seat_tbl (db st)"
    by (auto simp: insert_ticket_def Let_def split: if_splits)
  have fresh: "ticket_id \<notin> set (map t_id (ticket_tbl (db st)))"
    unfolding tid by (rule next_rowid_fresh)
  from assms have i1: "distinct (map t_id (ticket_tbl (db st)))"
    and i2: "distinct (map seat_key (ticket_seat_tbl (db st)))"
    and i3: "list_all (\<lambda>ts. list_ex (\<lambda>t. t_id t = ts_ticket_id ts \<and> t_status t = ''BOOKED'')
                          (ticket_tbl (db st))) (ticket_seat_tbl (db st))"
    by (simp_all add: db_inv_def)
  have a: "distinct (map t_id (ticket_tbl (db st')))"
    using i1 fresh by (simp add: tk)
  have b: "distinct (map seat_key (ticket_seat_tbl (db st')))"
    by (rule insert_seats_keys [OF ins]) (simp add: d1 i2)
  have new_owner: "\<forall>ts \<in> set new_rows. ts_ticket_id ts = ticket_id"
  proof
    fix ts assume "ts \<in> set new_rows"
    then have "seat_fields ts \<in> set (map seat_fields new_rows)" by simp
    then have "fst (seat_fields ts) = ticket_id" unfolding nf by auto
    then show "ts_ticket_id ts = ticket_id" by (simp add: seat_fields_def)
  qed
  have c: "list_all (\<lambda>ts. list_ex (\<lambda>t. t_id t = ts_ticket_id ts \<and> t_status t = ''BOOKED'')
                          (ticket_tbl (db st'))) (ticket_seat_tbl (db st'))"
    using i3 new_owner by (auto simp: tk rows list_all_iff list_ex_iff)
  from a b c show ?thesis by (simp add: db_inv_def ok)
qed

lemma cancel_seats_result_cases:
  obtains (err) e where "cancel_seats st ticket_id seats = (Inl e, st)"
  | (ok) t where "sqlite_int ticket_id"
      "find (\<lambda>t. t_id t = ticket_id \<and> t_status t = ''BOOKED'') (ticket_tbl (db st)) = Some t"
      "seats_bindable ticket_id seats"
proof (cases "sqlite_int ticket_id")
  case False
  from cancel_seats_unbindable [OF False] show ?thesis by (rule err)
next
  case s: True
  show ?thesis
  proof (cases "find (\<lambda>t. t_id t = ticket_id \<and> t_status t = ''BOOKED'') (ticket_tbl (db st))")
    case None
    from cancel_seats_None [OF s None] show ?thesis by (rule err)
  next
    case (Some t)
    show ?thesis
    proof (cases "seats_bindable ticket_id seats")
      case False
      from cancel_seats_overflow [OF Some False] show ?thesis by (rule err)
    next
      case True
      from s Some True show ?thesis by (rule ok)
    qed
  qed
qed

lemma cancel_seats_inv:
  assumes "db_inv (db st)"
  shows "db_inv (db (snd (cancel_seats st ticket_id seats)))"
proof (cases rule: cancel_seats_result_cases [of st ticket_id seats])
  case (err e)
  with assms show ?thesis by simp
next
  case (ok t)
  let ?rem = "filter (\<lambda>ts. (ts_row ts, ts_col ts) \<notin> set seats) (owned_seats (db st) ticket_id)"
  let ?f = "if ?rem = []
            then (\<lambda>u. u\<lparr>t_status := ''CANCELLED'', t_total := 0\<rparr>)
            else (\<lambda>u. u\<lparr>t_total := t_total t
                             - sum_list (map (snapshot_price (db st) ticket_id) seats)\<rparr>)"
  let ?d' = "db (snd (cancel_seats st ticket_id seats))"
  note c = cancel_seats_Some [OF ok]
  have tk: "ticket_tbl ?d' = map (\<lambda>u. if t_id u = ticket_id then ?f u else u) (ticket_tbl (db st))"
    unfolding c by (simp add: update_ticket_def)
  have rows: "ticket_seat_tbl ?d'
     = filter (\<lambda>ts. \<not> (ts_ticket_id ts = ticket_id \<and> (ts_row ts, ts_col ts) \<in> set seats))
         (ticket_seat_tbl (db st))"
    unfolding c by (simp add: update_ticket_def)
  from assms have i1: "distinct (map t_id (ticket_tbl (db st)))"
    and i2: "distinct (map seat_key (ticket_seat_tbl (db st)))"
    and i3: "list_all (\<lambda>ts. list_ex (\<lambda>t. t_id t = ts_ticket_id ts \<and> t_status t = ''BOOKED'')
                          (ticket_tbl (db st))) (ticket_seat_tbl (db st))"
    by (simp_all add: db_inv_def)
  have ids: "map t_id (ticket_tbl ?d') = map t_id (ticket_tbl (db st))"
    unfolding tk by (induction "ticket_tbl (db st)") auto
  have a: "distinct (map t_id (ticket_tbl ?d'))" by (simp add: ids i1)
  have b: "distinct (map seat_key (ticket_seat_tbl ?d'))"
    unfolding rows by (rule distinct_map_filter [OF i2])
  have c3: "list_all (\<lambda>ts. list_ex (\<lambda>t. t_id t = ts_ticket_id ts \<and> t_status t = ''BOOKED'')
                          (ticket_tbl ?d')) (ticket_seat_tbl ?d')"
    unfolding list_all_iff
  proof
    fix ts assume ts: "ts \<in> set (ticket_seat_tbl ?d')"
    then have old: "ts \<in> set (ticket_seat_tbl (db st))"
      and keep: "\<not> (ts_ticket_id ts = ticket_id \<and> (ts_row ts, ts_col ts) \<in> set seats)"
      by (simp_all add: rows)
    from i3 old obtain u where u: "u \<in> set (ticket_tbl (db st))" "t_id u = ts_ticket_id ts"
      "t_status u = ''BOOKED''"
      by (auto simp: list_all_iff list_ex_iff)
    let ?u' = "if t_id u = ticket_id then ?f u else u"
    have in': "?u' \<in> set (ticket_tbl ?d')" unfolding tk set_map using u(1) by (rule imageI)
    have id': "t_id ?u' = ts_ticket_id ts" using u(2) by simp
    have st': "t_status ?u' = ''BOOKED''"
    proof (cases "t_id u = ticket_id")
      case False
      with u(3) show ?thesis by simp
    next
      case True
      with u(2) keep old have m: "ts \<in> set ?rem" by (simp add: owned_seats_def)
      have "?rem \<noteq> []"
      proof
        assume e: "?rem = []"
        from m show False unfolding e by simp
      qed
      with u(3) True show ?thesis by simp
    qed
    from in' id' st' show "list_ex (\<lambda>t. t_id t = ts_ticket_id ts \<and> t_status t = ''BOOKED'')
                          (ticket_tbl ?d')"
      unfolding list_ex_iff by blast
  qed
  from a b c3 show ?thesis by (simp add: db_inv_def)
qed

lemma apply_op_inv: "db_inv (db st) \<Longrightarrow> db_inv (db (apply_op st op))"
  by (cases op) (simp_all add: book_seats_def book_seats_with_inv cancel_seats_inv)

lemma foldl_apply_op_inv: "db_inv (db st) \<Longrightarrow> db_inv (db (foldl apply_op st ops))"
  by (induction ops arbitrary: st) (simp_all add: apply_op_inv)

lemma run_inv: "db_inv (db (run ops))"
  unfolding run_def
  by (rule foldl_apply_op_inv) (simp add: db_inv_def empty_system_def empty_database_def)

section \<open>Occupied seats\<close>

lemma filter_single_id:
  assumes "distinct (map t_id ts)" "t \<in> set ts"
  shows "filter (\<lambda>u. t_id t = t_id u) ts = [t]"
  using assms
proof (induction ts)
  case Nil
  then show ?case by simp
next
  case (Cons a ts)
  show ?case
  proof (cases "a = t")
    case True
    with Cons.prems(1) have "\<forall>u \<in> set ts. t_id t \<noteq> t_id u" by (auto simp: image_iff)
    then have "filter (\<lambda>u. t_id t = t_id u) ts = []" by (simp add: filter_empty_conv)
    with True show ?thesis by simp
  next
    case False
    with Cons.prems have in_ts: "t \<in> set ts" by simp
    with Cons.prems(1) have "t_id t \<noteq> t_id a" by (auto simp: image_iff)
    with Cons.IH Cons.prems(1) in_ts show ?thesis by simp
  qed
qed

lemma join_booked:
  assumes "distinct (map t_id tickets)"
    and "list_all (\<lambda>ts. list_ex (\<lambda>t. t_id t = ts_ticket_id ts \<and> t_status t = ''BOOKED'') tickets) xs"
  shows "map (\<lambda>(ts, t). (ts_row ts, ts_col ts))
           (filter (\<lambda>(ts, t). ts_show_id ts = show_id \<and> t_status t = ''BOOKED'')
              (concat (map (\<lambda>ts. map (\<lambda>t. (ts, t)) (filter (\<lambda>t. ts_ticket_id ts = t_id t) tickets)) xs)))
         = map (\<lambda>ts. (ts_row ts, ts_col ts)) (filter (\<lambda>ts. ts_show_id ts = show_id) xs)"
  using assms(2)
proof (induction xs)
  case Nil
  then show ?case by simp
next
  case (Cons x xs)
  from Cons.prems obtain t where t: "t \<in> set tickets" "t_id t = ts_ticket_id x"
    "t_status t = ''BOOKED''"
    by (auto simp: list_ex_iff)
  from filter_single_id [OF assms(1) t(1)] t(2)
  have f: "filter (\<lambda>u. ts_ticket_id x = t_id u) tickets = [t]" by simp
  from Cons.prems have rest: "list_all (\<lambda>ts. list_ex (\<lambda>t. t_id t = ts_ticket_id ts
      \<and> t_status t = ''BOOKED'') tickets) xs" by simp
  from Cons.IH [OF rest] show ?case by (simp add: f t(3))
qed

lemma booked_seats_inv:
  assumes "db_inv d"
  shows "booked_seats d show_id
           = map (\<lambda>ts. (ts_row ts, ts_col ts)) (filter (\<lambda>ts. ts_show_id ts = show_id) (ticket_seat_tbl d))"
  unfolding booked_seats_def seat_join_ticket_def
  using assms by (intro join_booked) (simp_all add: db_inv_def)

lemma booked_seats_distinct:
  assumes "db_inv d"
  shows "distinct (booked_seats d show_id)"
proof -
  let ?xs = "filter (\<lambda>ts. ts_show_id ts = show_id) (ticket_seat_tbl d)"
  from assms have "distinct (map seat_key (ticket_seat_tbl d))" by (simp add: db_inv_def)
  then have "distinct (map seat_key ?xs)" by (rule distinct_map_filter)
  moreover have "map seat_key ?xs = map (Pair show_id) (map (\<lambda>ts. (ts_row ts, ts_col ts)) ?xs)"
    by (simp add: seat_key_def)
  ultimately have "distinct (map (Pair show_id) (map (\<lambda>ts. (ts_row ts, ts_col ts)) ?xs))"
    by (simp only:)
  then have "distinct (map (\<lambda>ts. (ts_row ts, ts_col ts)) ?xs)"
    by (simp only: distinct_map [of "Pair show_id"])
  then show ?thesis by (simp add: booked_seats_inv [OF assms])
qed

lemma book_seats_in_grid:
  assumes "rows_in_grid dims (db st)" "list_all (in_grid (dims show_id)) seats"
  shows "rows_in_grid dims (db (snd (book_seats st show_id user_name user_mobile seats rows cols)))"
proof (cases rule: book_seats_with_result_cases
         [of get_price st show_id user_name user_mobile seats rows cols])
  case (err e st')
  with assms show ?thesis by (simp add: book_seats_def book_seats_with_Inl [OF err])
next
  case (ok ticket_id tot confirmed st')
  from book_seats_with_Inr [OF ok] obtain new_rows where
    rows: "ticket_seat_tbl (db st') = ticket_seat_tbl (db st) @ new_rows"
    and nf: "map seat_fields new_rows
          = map (\<lambda>(row, col). (ticket_id, show_id, row, col, get_price row)) seats"
    by blast
  have "\<forall>ts \<in> set new_rows. in_grid (dims (ts_show_id ts)) (ts_row ts, ts_col ts)"
  proof
    fix ts assume "ts \<in> set new_rows"
    then have "seat_fields ts \<in> set (map seat_fields new_rows)" by simp
    then obtain row col where rc: "(row, col) \<in> set seats"
      "seat_fields ts = (ticket_id, show_id, row, col, get_price row)"
      unfolding nf by auto
    from rc(1) assms(2) have "in_grid (dims show_id) (row, col)" by (simp add: list_all_iff)
    with rc(2) show "in_grid (dims (ts_show_id ts)) (ts_row ts, ts_col ts)"
      by (simp add: seat_fields_def)
  qed
  with assms(1) show ?thesis
    by (auto simp: rows_in_grid_def book_seats_def ok rows list_all_iff)
qed

lemma cancel_seats_in_grid:
  assumes "rows_in_grid dims (db st)"
  shows "rows_in_grid dims (db (snd (cancel_seats st ticket_id seats)))"
proof (cases rule: cancel_seats_result_cases [of st ticket_id seats])
  case (err e)
  with assms show ?thesis by simp
next
  case (ok t)
  from assms show ?thesis
    unfolding cancel_seats_Some [OF ok]
    by (simp add: rows_in_grid_def update_ticket_def list_all_iff)
qed

lemma apply_op_in_grid:
  "rows_in_grid dims (db st) \<Longrightarrow> op_in_bounds dims op \<Longrightarrow> rows_in_grid dims (db (apply_op st op))"
proof (cases op)
  case (Book show_id user_name user_mobile seats rows cols)
  assume a: "rows_in_grid dims (db st)" and b: "op_in_bounds dims op"
  from b Book have "list_all (in_grid (dims show_id)) seats" by auto
  from book_seats_in_grid [OF a this] Book show ?thesis by simp
next
  case (Cancel ticket_id seats)
  assume a: "rows_in_grid dims (db st)"
  from cancel_seats_in_grid [OF a] Cancel show ?thesis by simp
qed

lemma foldl_apply_op_in_grid:
  "rows_in_grid dims (db st) \<Longrightarrow> list_all (op_in_bounds dims) ops
     \<Longrightarrow> rows_in_grid dims (db (foldl apply_op st ops))"
  by (induction ops arbitrary: st) (simp_all add: apply_op_in_grid)

lemma run_in_grid: "list_all (op_in_bounds dims) ops \<Longrightarrow> rows_in_grid dims (db (run ops))"
  unfolding run_def
  by (rule foldl_apply_op_in_grid) (simp_all add: rows_in_grid_def empty_system_def empty_database_def)

text \<open>
  Claim C9, as the code has it. In every state reached from the empty store by bookings
  and cancellations, the occupied pairs of a showing, read from the seat rows joined
  with their BOOKED tickets, have no duplicate. They all lie within the showing's grid
  when every booking of the history passed the showing's dimensions and only seats
  within them; \<^verbatim>\<open>book_seats\<close> itself does not see to that.
\<close>

theorem occupied_pairs_distinct:
  "distinct (booked_seats (db (run ops)) show_id)
   \<and> (list_all (op_in_bounds dims) ops
        \<longrightarrow> list_all (in_grid (dims show_id)) (booked_seats (db (run ops)) show_id))"
proof (intro conjI impI)
  show "distinct (booked_seats (db (run ops)) show_id)"
    by (rule booked_seats_distinct [OF run_inv])
next
  assume "list_all (op_in_bounds dims) ops"
  from run_in_grid [OF this] show "list_all (in_grid (dims show_id)) (booked_seats (db (run ops)) show_id)"
    by (auto simp: booked_seats_inv [OF run_inv] rows_in_grid_def list_all_iff)
qed

theorem occupied_pairs_distinct_witness:
  "distinct (booked_seats (db (run [Book 1 ''u'' ''m'' [(0, 0), (3, 3)] 7 7, Cancel 1 [(0, 0)],
       Book 1 ''v'' ''n'' [(0, 0), (6, 6)] 7 7, Book 1 ''w'' ''o'' [(3, 3)] 7 7])) 1)
   \<and> list_all (in_grid (7, 7)) (booked_seats (db (run [Book 1 ''u'' ''m'' [(0, 0), (3, 3)] 7 7,
       Cancel 1 [(0, 0)], Book 1 ''v'' ''n'' [(0, 0), (6, 6)] 7 7, Book 1 ''w'' ''o'' [(3, 3)] 7 7])) 1)
   \<and> booked_seats (db (run [Book 1 ''u'' ''m'' [(0, 0), (3, 3)] 7 7, Cancel 1 [(0, 0)],
       Book 1 ''v'' ''n'' [(0, 0), (6, 6)] 7 7, Book 1 ''w'' ''o'' [(3, 3)] 7 7])) 1
       = [(3, 3), (0, 0), (6, 6)]"
proof -
  let ?ops = "[Book 1 ''u'' ''m'' [(0, 0), (3, 3)] 7 7, Cancel 1 [(0, 0)],
       Book 1 ''v'' ''n'' [(0, 0), (6, 6)] 7 7, Book 1 ''w'' ''o'' [(3, 3)] 7 7]"
  have b: "list_all (op_in_bounds (\<lambda>s. (7, 7))) ?ops" by (simp add: in_grid_def)
  have v: "booked_seats (db (run ?ops)) 1 = [(3, 3), (0, 0), (6, 6)]" by code_simp
  from occupied_pairs_distinct [of ?ops 1 "\<lambda>s. (7, 7)"] b
  have "distinct (booked_seats (db (run ?ops)) 1)
        \<and> list_all (in_grid (7, 7)) (booked_seats (db (run ?ops)) 1)" by blast
  with v show ?thesis by blast
qed

text \<open>
  One booking of row 7 in a 7 x 7 showing, which \<^verbatim>\<open>book_seats\<close> accepts, leaves an
  occupied pair outside the grid.
\<close>

theorem occupied_pairs_distinct_counterexample:
  "booked_seats (db (run [Book 1 ''u'' ''m'' [(7, 0)] 7 7])) 1 = [(7, 0)]
   \<and> \<not> in_grid (7, 7) (7, 0)"
  by code_simp

section \<open>Seat rows and their tickets\<close>

text \<open>
  Claim C10. In every state reached from the empty store by bookings and cancellations,
  every seat row names a ticket and that ticket has status BOOKED; and a ticket whose
  status is not BOOKED, a CANCELLED one, owns no seat row.
\<close>

theorem seat_rows_owned_by_booked:
  "list_all (\<lambda>ts. \<exists>t. find (\<lambda>t. t_id t = ts_ticket_id ts) (ticket_tbl (db (run ops))) = Some t
                     \<and> t_status t = ''BOOKED'')
     (ticket_seat_tbl (db (run ops)))
   \<and> list_all (\<lambda>t. t_status t \<noteq> ''BOOKED'' \<longrightarrow> owned_seats (db (run ops)) (t_id t) = [])
       (ticket_tbl (db (run ops)))"
proof -
  let ?d = "db (run ops)"
  from run_inv [of ops] have i1: "distinct (map t_id (ticket_tbl ?d))"
    and i3: "list_all (\<lambda>ts. list_ex (\<lambda>t. t_id t = ts_ticket_id ts \<and> t_status t = ''BOOKED'')
                          (ticket_tbl ?d)) (ticket_seat_tbl ?d)"
    by (simp_all add: db_inv_def)
  have owner: "\<exists>t. find (\<lambda>t. t_id t = ts_ticket_id ts) (ticket_tbl ?d) = Some t
                     \<and> t_status t = ''BOOKED''"
    if "ts \<in> set (ticket_seat_tbl ?d)" for ts
  proof -
    from i3 that obtain u where u: "u \<in> set (ticket_tbl ?d)" "t_id u = ts_ticket_id ts"
      "t_status u = ''BOOKED''"
      by (auto simp: list_all_iff list_ex_iff)
    from find_distinct_id [OF i1 u(1)] u(2)
    have "find (\<lambda>t. t_id t = ts_ticket_id ts) (ticket_tbl ?d) = Some u" by simp
    with u(3) show ?thesis by blast
  qed
  have none: "owned_seats ?d (t_id t) = []"
    if "t \<in> set (ticket_tbl ?d)" "t_status t \<noteq> ''BOOKED''" for t
  proof (rule ccontr)
    assume "owned_seats ?d (t_id t) \<noteq> []"
    then obtain ts where ts: "ts \<in> set (ticket_seat_tbl ?d)" "ts_ticket_id ts = t_id t"
      by (auto simp: owned_seats_def filter_empty_conv)
    from owner [OF ts(1)] obtain u where
      u: "find (\<lambda>t. t_id t = ts_ticket_id ts) (ticket_tbl ?d) = Some u" "t_status u = ''BOOKED''"
      by blast
    from find_distinct_id [OF i1 that(1)] ts(2)
    have "find (\<lambda>t. t_id t = ts_ticket_id ts) (ticket_tbl ?d) = Some t" by simp
    with u that(2) show False by simp
  qed
  from owner none show ?thesis by (simp add: list_all_iff)
qed

theorem seat_rows_owned_by_booked_witness:
  "map (\<lambda>t. (t_id t, t_status t)) (ticket_tbl (db (run [Book 1 ''u'' ''m'' [(0, 0), (3, 3)] 7 7,
       Cancel 1 [(0, 0)], Book 1 ''v'' ''n'' [(0, 0)] 7 7, Cancel 1 [(3, 3)]])))
     = [(1, ''CANCELLED''), (2, ''BOOKED'')]
   \<and> owned_seats (db (run [Book 1 ''u'' ''m'' [(0, 0), (3, 3)] 7 7,
       Cancel 1 [(0, 0)], Book 1 ''v'' ''n'' [(0, 0)] 7 7, Cancel 1 [(3, 3)]])) 1 = []
   \<and> map seat_fields (ticket_seat_tbl (db (run [Book 1 ''u'' ''m'' [(0, 0), (3, 3)] 7 7,
       Cancel 1 [(0, 0)], Book 1 ''v'' ''n'' [(0, 0)] 7 7, Cancel 1 [(3, 3)]])))
     = [(2, 1, 0, 0, 100)]"
proof -
  let ?ops = "[Book 1 ''u'' ''m'' [(0, 0), (3, 3)] 7 7,
       Cancel 1 [(0, 0)], Book 1 ''v'' ''n'' [(0, 0)] 7 7, Cancel 1 [(3, 3)]]"
  have tk: "ticket_tbl (db (run ?ops))
      = [\<lparr>t_id = 1, t_show_id = 1, t_user = ''u'', t_mobile = ''m'',
           t_status = ''CANCELLED'', t_total = 0\<rparr>,
         \<lparr>t_id = 2, t_show_id = 1, t_user = ''v'', t_mobile = ''n'',
           t_status = ''BOOKED'', t_total = 100\<rparr>]" by code_simp
  have rows: "map seat_fields (ticket_seat_tbl (db (run ?ops))) = [(2, 1, 0, 0, 100)]"
    by code_simp
  from seat_rows_owned_by_booked [of ?ops]
  have "list_all (\<lambda>t. t_status t \<noteq> ''BOOKED'' \<longrightarrow> owned_seats (db (run ?ops)) (t_id t) = [])
       (ticket_tbl (db (run ?ops)))" by blast
  then have "owned_seats (db (run ?ops)) 1 = []" unfolding tk by simp
  with tk rows show ?thesis by simp
qed

section \<open>The snapshotted price\<close>

lemma referential_inv:
  assumes "db_inv d"
  shows "referential d"
  unfolding referential_def list_all_iff
proof
  fix ts assume "ts \<in> set (ticket_seat_tbl d)"
  with assms obtain t where "t \<in> set (ticket_tbl d)" "t_id t = ts_ticket_id ts"
    by (auto simp: db_inv_def list_all_iff list_ex_iff)
  then have "t_id t \<in> t_id ` set (ticket_tbl d)" by (intro imageI)
  with \<open>t_id t = ts_ticket_id ts\<close> show "ts_ticket_id ts \<in> set (map t_id (ticket_tbl d))"
    by simp
qed

lemma run_referential: "referential (db (run ops))"
  by (rule referential_inv [OF run_inv])

lemma find_new_row:
  assumes "map seat_fields new_rows
             = map (\<lambda>(row, col). (ticket_id, show_id, row, col, price_of row)) seats"
    and "(row, col) \<in> set seats"
  shows "\<exists>ts. find (\<lambda>ts. ts_ticket_id ts = ticket_id \<and> (ts_row ts, ts_col ts) = (row, col)) new_rows
               = Some ts \<and> ts_price ts = price_of row"
  using assms
proof (induction new_rows arbitrary: seats)
  case Nil
  then show ?case by simp
next
  case (Cons x new_rows)
  from Cons.prems(1) obtain r c rest where seats: "seats = (r, c) # rest"
    and x: "seat_fields x = (ticket_id, show_id, r, c, price_of r)"
    and more: "map seat_fields new_rows
             = map (\<lambda>(row, col). (ticket_id, show_id, row, col, price_of row)) rest"
    by (cases seats) auto
  show ?case
  proof (cases "(r, c) = (row, col)")
    case True
    with x show ?thesis by (simp add: seat_fields_def)
  next
    case False
    with Cons.prems(2) seats have "(row, col) \<in> set rest" by auto
    from Cons.IH [OF more this] False x show ?thesis by (simp add: seat_fields_def)
  qed
qed

text \<open>The seat rows a ticket already there owns at a pair only become fewer.\<close>

lemma book_seats_priced_at:
  assumes "priced_at ticket_id rc p (db st)"
  shows "priced_at ticket_id rc p
           (db (snd (book_seats st show_id user_name user_mobile seats rows cols)))"
proof (cases rule: book_seats_with_result_cases
         [of get_price st show_id user_name user_mobile seats rows cols])
  case (err e st')
  with assms show ?thesis by (simp add: book_seats_def book_seats_with_Inl [OF err])
next
  case (ok new_id tot confirmed st')
  from book_seats_with_Inr [OF ok] obtain new_rows where
    tid: "new_id = next_rowid (map t_id (ticket_tbl (db st)))"
    and tk: "ticket_tbl (db st') = ticket_tbl (db st) @
          [\<lparr>t_id = new_id, t_show_id = show_id, t_user = user_name, t_mobile = user_mobile,
            t_status = ''BOOKED'', t_total = tot\<rparr>]"
    and rows: "ticket_seat_tbl (db st') = ticket_seat_tbl (db st) @ new_rows"
    and nf: "map seat_fields new_rows
          = map (\<lambda>(row, col). (new_id, show_id, row, col, get_price row)) seats"
    by blast
  have fresh: "new_id \<notin> set (map t_id (ticket_tbl (db st)))"
    unfolding tid by (rule next_rowid_fresh)
  with assms have neq: "new_id \<noteq> ticket_id" by (auto simp: priced_at_def)
  have new_owner: "\<forall>ts \<in> set new_rows. ts_ticket_id ts = new_id"
  proof
    fix ts assume "ts \<in> set new_rows"
    then have "seat_fields ts \<in> set (map seat_fields new_rows)" by simp
    then have "fst (seat_fields ts) = new_id" unfolding nf by auto
    then show "ts_ticket_id ts = new_id" by (simp add: seat_fields_def)
  qed
  from assms neq new_owner show ?thesis
    by (auto simp: priced_at_def book_seats_def ok tk rows list_all_iff)
qed

lemma cancel_seats_priced_at:
  assumes "priced_at ticket_id rc p (db st)"
  shows "priced_at ticket_id rc p (db (snd (cancel_seats st k seats)))"
proof (cases rule: cancel_seats_result_cases [of st k seats])
  case (err e)
  with assms show ?thesis by simp
next
  case (ok t)
  from assms show ?thesis
    unfolding cancel_seats_Some [OF ok]
    by (auto simp: priced_at_def update_ticket_def list_all_iff image_iff)
qed

lemma apply_op_priced_at:
  "priced_at ticket_id rc p (db st) \<Longrightarrow> priced_at ticket_id rc p (db (apply_op st op))"
  by (cases op) (simp_all add: book_seats_priced_at cancel_seats_priced_at)

lemma foldl_apply_op_priced_at:
  "priced_at ticket_id rc p (db st) \<Longrightarrow> priced_at ticket_id rc p (db (foldl apply_op st ops))"
  by (induction ops arbitrary: st) (simp_all add: apply_op_priced_at)

lemma snapshot_price_priced_at:
  assumes "priced_at ticket_id rc p d"
    and "list_ex (\<lambda>ts. ts_ticket_id ts = ticket_id \<and> (ts_row ts, ts_col ts) = rc) (ticket_seat_tbl d)"
  shows "snapshot_price d ticket_id rc = p"
proof -
  let ?P = "\<lambda>ts. ts_ticket_id ts = ticket_id \<and> (ts_row ts, ts_col ts) = rc"
  from assms(2) obtain ts where ts: "find ?P (ticket_seat_tbl d) = Some ts"
    by (cases "find ?P (ticket_seat_tbl d)") (auto simp: find_None_iff list_ex_iff)
  then have "ts \<in> set (ticket_seat_tbl d)" "?P ts" by (auto simp: find_Some_iff)
  with assms(1) have "ts_price ts = p" by (auto simp: priced_at_def list_all_iff)
  with ts show ?thesis by (simp add: snapshot_price_def)
qed

text \<open>
  Claim C6. Let a booking be made under any price function, on a store that satisfies
  the invariant of the tables (every reachable store does, \<open>run_inv\<close>), and take a
  requested seat whose price a REAL column stores as it is. The price confirmed for the
  seat and the price in its seat row are that price; and after any further bookings and
  cancellations, made under the policy of the source, a cancellation of the seat, if
  the reservation still holds it, refunds that price. \<^verbatim>\<open>cancel_seats\<close> has no price
  function to ask: whatever \<open>get_price\<close> says of the row when the seat is cancelled, the
  refund is the price the booking stored.
\<close>

theorem price_round_trip:
  assumes "db_inv (db st)"
    and "book_seats_with price_of st show_id user_name user_mobile seats rows cols
           = (Inr (ticket_id, tot, confirmed), st')"
    and "(row, col) \<in> set seats"
    and "real_exact (price_of row)"
    and "list_ex (\<lambda>ts. ts_ticket_id ts = ticket_id \<and> (ts_row ts, ts_col ts) = (row, col))
           (ticket_seat_tbl (db (foldl apply_op st' ops)))"
  shows "(row, col, price_of row) \<in> set confirmed
     \<and> snapshot_price (db st') ticket_id (row, col) = price_of row
     \<and> snapshot_price (db (foldl apply_op st' ops)) ticket_id (row, col) = price_of row
     \<and> fst (cancel_seats (foldl apply_op st' ops) ticket_id [(row, col)]) = Inr (price_of row)"
proof -
  let ?P = "\<lambda>ts. ts_ticket_id ts = ticket_id \<and> (ts_row ts, ts_col ts) = (row, col)"
  let ?st'' = "foldl apply_op st' ops"
  from book_seats_with_Inr [OF assms(2)] obtain new_rows where
    ne: "seats \<noteq> []"
    and pe: "precheck_error (db st) show_id seats = None"
    and tid: "ticket_id = next_rowid (map t_id (ticket_tbl (db st)))"
    and conf: "confirmed = priced price_of seats"
    and tk: "ticket_tbl (db st') = ticket_tbl (db st) @
          [\<lparr>t_id = ticket_id, t_show_id = show_id, t_user = user_name, t_mobile = user_mobile,
            t_status = ''BOOKED'', t_total = tot\<rparr>]"
    and rows: "ticket_seat_tbl (db st') = ticket_seat_tbl (db st) @ new_rows"
    and nf: "map seat_fields new_rows
          = map (\<lambda>(row, col). (ticket_id, show_id, row, col, price_of row)) seats"
    by blast
  have c1: "(row, col, price_of row) \<in> set confirmed"
    using assms(3) by (auto simp: conf priced_def)
  have fresh: "ticket_id \<notin> set (map t_id (ticket_tbl (db st)))"
    unfolding tid by (rule next_rowid_fresh)
  have old: "\<forall>ts \<in> set (ticket_seat_tbl (db st)). ts_ticket_id ts \<noteq> ticket_id"
    using referential_inv [OF assms(1)] fresh by (auto simp: referential_def list_all_iff)
  have new: "\<forall>ts \<in> set new_rows. ?P ts \<longrightarrow> ts_price ts = price_of row"
  proof (intro ballI impI)
    fix ts assume "ts \<in> set new_rows" and p: "?P ts"
    then have "seat_fields ts \<in> set (map seat_fields new_rows)" by simp
    then obtain r c where "seat_fields ts = (ticket_id, show_id, r, c, price_of r)"
      unfolding nf by auto
    with p show "ts_price ts = price_of row" by (simp add: seat_fields_def)
  qed
  have p': "priced_at ticket_id (row, col) (price_of row) (db st')"
    using old new by (auto simp: priced_at_def tk rows list_all_iff)
  from find_new_row [OF nf assms(3)] have here: "list_ex ?P (ticket_seat_tbl (db st'))"
    by (auto simp: rows list_ex_iff find_Some_iff)
  have c2: "snapshot_price (db st') ticket_id (row, col) = price_of row"
    by (rule snapshot_price_priced_at [OF p' here])
  have p'': "priced_at ticket_id (row, col) (price_of row) (db ?st'')"
    by (rule foldl_apply_op_priced_at [OF p'])
  have c3: "snapshot_price (db ?st'') ticket_id (row, col) = price_of row"
    by (rule snapshot_price_priced_at [OF p'' assms(5)])
  have inv'': "db_inv (db ?st'')"
  proof (rule foldl_apply_op_inv)
    from book_seats_with_inv [OF assms(1), of price_of show_id user_name user_mobile seats rows cols]
    show "db_inv (db st')" by (simp add: assms(2))
  qed
  from assms(5) obtain ts where ts: "ts \<in> set (ticket_seat_tbl (db ?st''))" "?P ts"
    by (auto simp: list_ex_iff)
  with inv'' have booked: "list_ex (\<lambda>t. t_id t = ticket_id \<and> t_status t = ''BOOKED'')
      (ticket_tbl (db ?st''))"
    by (auto simp: db_inv_def list_all_iff list_ex_iff)
  from assms(2) obtain d1 where
    ins: "insert_seats d1 ticket_id show_id (priced price_of seats) = Inr (db st')"
    by (rule book_seats_with_steps)
  from ne have "priced price_of seats \<noteq> []" by (simp add: priced_def)
  from insert_seats_bindable [OF ins this] have s: "sqlite_int ticket_id" .
  from precheck_error_None_bindable [OF pe] assms(3)
  have "bindable [show_id, row, col]" by (auto simp: seats_bindable_def list_all_iff)
  with s have b: "seats_bindable ticket_id [(row, col)]"
    by (simp add: seats_bindable_def bindable_def)
  from find_booked_Some [OF booked] obtain t where
    t: "find (\<lambda>t. t_id t = ticket_id \<and> t_status t = ''BOOKED'') (ticket_tbl (db ?st'')) = Some t" ..
  have "fst (cancel_seats ?st'' ticket_id [(row, col)])
          = Inr (sum_list (map (snapshot_price (db ?st'') ticket_id) [(row, col)]))"
    by (simp add: cancel_seats_Some [OF s t b])
  then have c4: "fst (cancel_seats ?st'' ticket_id [(row, col)]) = Inr (price_of row)"
    by (simp add: c3)
  from c1 c2 c3 c4 show ?thesis by blast
qed

theorem price_round_trip_witness:
  "fst (cancel_seats
         (foldl apply_op
            (snd (book_seats_with (\<lambda>row. 500 + row) empty_system 1 ''u'' ''m'' [(0, 0), (3, 3)] 7 7))
            [Book 1 ''v'' ''n'' [(3, 4)] 7 7, Cancel 1 [(0, 0)]])
         1 [(3, 3)]) = Inr 503
   \<and> snapshot_price (db (snd (book_seats_with (\<lambda>row. 500 + row) empty_system 1 ''u'' ''m''
          [(0, 0), (3, 3)] 7 7))) 1 (3, 3) = 503
   \<and> get_price 3 = 150"
proof -
  let ?b = "book_seats_with (\<lambda>row. 500 + row) empty_system 1 ''u'' ''m'' [(0, 0), (3, 3)] 7 7"
  let ?ops = "[Book 1 ''v'' ''n'' [(3, 4)] 7 7, Cancel 1 [(0, 0)]]"
  have r: "db_inv (db empty_system)" by code_simp
  have e: "fst ?b = Inr (1, 1003, [(0, 0, 500), (3, 3, 503)])" by code_simp
  obtain st' where b: "?b = (Inr (1, 1003, [(0, 0, 500), (3, 3, 503)]), st')"
    using e by (cases ?b) simp
  have st': "st' = snd ?b" by (simp add: b)
  have m: "(3, 3) \<in> set [(0::int, 0::int), (3, 3)]" by simp
  have x: "real_exact ((\<lambda>row. 500 + row) 3)" by (simp add: real_exact_def)
  have h: "list_ex (\<lambda>ts. ts_ticket_id ts = 1 \<and> (ts_row ts, ts_col ts) = (3, 3))
             (ticket_seat_tbl (db (foldl apply_op (snd ?b) ?ops)))" by code_simp
  from price_round_trip [OF r b m x, of ?ops] h
  have "snapshot_price (db st') 1 (3, 3) = 503
     \<and> fst (cancel_seats (foldl apply_op st' ?ops) 1 [(3, 3)]) = Inr 503"
    by (simp add: st')
  moreover have "get_price 3 = 150" by (simp add: get_price_def)
  ultimately show ?thesis by (simp add: st')
qed

end
